theory Spec2Isabelle
  imports Complex_Main
begin

section \<open>JavaScript values seen by \<open>ntil\<close>\<close>

text \<open>
  The embedding follows \<^verbatim>\<open>src/ntil.js\<close>. A JavaScript number is a double, seen as the
  real number it stands for (\<open>NaN\<close> and the infinities are outside the model); a product
  of two numbers is not their exact product but the double the host rounds it to, see
  \<open>multiply\<close> and \<open>double_times\<close> below. A function value is a name
  (its \<^verbatim>\<open>.name\<close> property) and an identity; what a function does when it is called is
  given by a \<open>world\<close> below. An object is represented by the five properties that
  \<^verbatim>\<open>ntil\<close> reads from it; an absent property is \<open>None\<close> (for \<^verbatim>\<open>logger\<close>: \<open>False\<close>).
\<close>

datatype fn = Fn (fn_name: string) (fn_id: nat)

record options =
  opt_name :: "string option"
  opt_logger :: bool
  opt_waitSecs :: "real option"
  opt_waitMult :: "real option"
  opt_maxCalls :: "real option"

datatype jsval =
    JUndefined
  | JNull
  | JBool bool
  | JNum real
  | JStr string
  | JFunction fn
  | JObject options

text \<open>\<^verbatim>\<open>typeof v === 'function'\<close>\<close>

fun is_function :: "jsval \<Rightarrow> bool" where
  "is_function (JFunction f) = True"
| "is_function v = False"

text \<open>The truth value JavaScript gives a value in \<^verbatim>\<open>v || d\<close> and \<^verbatim>\<open>if (v)\<close>.\<close>

fun truthy :: "jsval \<Rightarrow> bool" where
  "truthy JUndefined = False"
| "truthy JNull = False"
| "truthy (JBool b) = b"
| "truthy (JNum x) = (x \<noteq> 0)"
| "truthy (JStr s) = (s \<noteq> [])"
| "truthy (JFunction f) = True"
| "truthy (JObject ob) = True"

text \<open>The empty object literal \<^verbatim>\<open>{}\<close>.\<close>

definition empty_object :: options where
  "empty_object = \<lparr>opt_name = None, opt_logger = False, opt_waitSecs = None,
     opt_waitMult = None, opt_maxCalls = None\<rparr>"

text \<open>
  Property reads \<^verbatim>\<open>opts.name\<close>, \<^verbatim>\<open>opts.logger\<close>, \<^verbatim>\<open>opts.waitSecs\<close>,
  \<^verbatim>\<open>opts.waitMult\<close>, \<^verbatim>\<open>opts.maxCalls\<close>. They are applied after \<^verbatim>\<open>opts = opts || {}\<close>,
  hence never to \<^verbatim>\<open>undefined\<close> or \<^verbatim>\<open>null\<close>; a primitive has none of the properties and
  a function has only its name.
\<close>

fun prop_name :: "jsval \<Rightarrow> string option" where
  "prop_name (JObject ob) = opt_name ob"
| "prop_name (JFunction f) = Some (fn_name f)"
| "prop_name v = None"

fun prop_logger :: "jsval \<Rightarrow> bool" where
  "prop_logger (JObject ob) = opt_logger ob"
| "prop_logger v = False"

fun prop_waitSecs :: "jsval \<Rightarrow> real option" where
  "prop_waitSecs (JObject ob) = opt_waitSecs ob"
| "prop_waitSecs v = None"

fun prop_waitMult :: "jsval \<Rightarrow> real option" where
  "prop_waitMult (JObject ob) = opt_waitMult ob"
| "prop_waitMult v = None"

fun prop_maxCalls :: "jsval \<Rightarrow> real option" where
  "prop_maxCalls (JObject ob) = opt_maxCalls ob"
| "prop_maxCalls v = None"

text \<open>
  \<^verbatim>\<open>v || d\<close> on a number-valued and on a string-valued property: the default is taken
  when the property is absent and also when it is falsy (\<open>0\<close>, the empty string).
\<close>

definition or_num :: "real option \<Rightarrow> real \<Rightarrow> real" where
  "or_num v d = (case v of None \<Rightarrow> d | Some x \<Rightarrow> if x = 0 then d else x)"

definition or_str :: "string option \<Rightarrow> string \<Rightarrow> string" where
  "or_str v d = (case v of None \<Rightarrow> d | Some x \<Rightarrow> if x = [] then d else x)"

section \<open>The constructor and the builder\<close>

text \<open>The values a handler closure captures (lines 137-145 of the source).\<close>

record handler =
  h_checker :: fn
  h_performer :: fn
  h_success :: jsval
  h_failure :: jsval
  h_name :: string
  h_logger :: bool
  h_waitSecs :: real
  h_waitMult :: real
  h_maxCalls :: real

text \<open>
  A \<^verbatim>\<open>chain\<close> object: the constructor's variables \<^verbatim>\<open>checker\<close> and \<^verbatim>\<open>opts\<close> and the
  properties \<^verbatim>\<open>this.perform\<close>, \<^verbatim>\<open>this.success\<close>, \<^verbatim>\<open>this.failure\<close> (undefined until set).
  Builders are mutable objects, so they live in a store and are passed by reference.
\<close>

record chain =
  c_checker :: jsval
  c_opts :: jsval
  c_perform :: jsval
  c_success :: jsval
  c_failure :: jsval

record store =
  objs :: "nat \<Rightarrow> chain"
  fresh :: nat

datatype ntil_result = Handler handler | Builder nat

definition sig :: string where
  "sig = ''Check params: function ntil(checker, performer, success, failure, opts)''"

text \<open>\<^verbatim>\<open>new chain(checker, opts)\<close>\<close>

definition new_chain :: "jsval \<Rightarrow> jsval \<Rightarrow> store \<Rightarrow> nat \<times> store" where
  "new_chain checker opts s =
     (fresh s,
      s\<lparr>objs := (objs s)(fresh s := \<lparr>c_checker = checker, c_opts = opts,
             c_perform = JUndefined, c_success = JUndefined, c_failure = JUndefined\<rparr>),
        fresh := Suc (fresh s)\<rparr>)"

text \<open>
  \<^verbatim>\<open>function ntil(checker, performer, success, failure, opts)\<close>: \<open>Inl\<close> is the thrown value.
\<close>

definition ntil ::
  "jsval \<Rightarrow> jsval \<Rightarrow> jsval \<Rightarrow> jsval \<Rightarrow> jsval \<Rightarrow> store \<Rightarrow> (jsval + ntil_result) \<times> store" where
  "ntil checker performer success failure opts0 s =
     (let opts = (if truthy opts0 then opts0 else JObject empty_object) in
      case checker of
        JFunction c \<Rightarrow>
          (case performer of
             JFunction p \<Rightarrow>
               (Inr (Handler \<lparr>h_checker = c, h_performer = p,
                  h_success = success, h_failure = failure,
                  h_name = or_str (prop_name opts) (or_str (Some (fn_name p)) ''anonymous function''),
                  h_logger = prop_logger opts,
                  h_waitSecs = or_num (prop_waitSecs opts) 1,
                  h_waitMult = or_num (prop_waitMult opts) 2,
                  h_maxCalls = or_num (prop_maxCalls opts) 7\<rparr>), s)
           | _ \<Rightarrow> (case new_chain checker performer s of (r, s') \<Rightarrow> (Inr (Builder r), s')))
      | _ \<Rightarrow> (Inl (JStr sig), s))"

text \<open>The methods of a \<^verbatim>\<open>chain\<close> object \<open>r\<close>; each setter ends with \<^verbatim>\<open>return this\<close>.\<close>

definition chain_opts :: "nat \<Rightarrow> jsval \<Rightarrow> store \<Rightarrow> nat \<times> store" where
  "chain_opts r v s = (r, s\<lparr>objs := (objs s)(r := (objs s r)\<lparr>c_opts := v\<rparr>)\<rparr>)"

definition chain_exec :: "nat \<Rightarrow> jsval \<Rightarrow> store \<Rightarrow> nat \<times> store" where
  "chain_exec r v s = (r, s\<lparr>objs := (objs s)(r := (objs s r)\<lparr>c_perform := v\<rparr>)\<rparr>)"

definition chain_done :: "nat \<Rightarrow> jsval \<Rightarrow> store \<Rightarrow> nat \<times> store" where
  "chain_done r v s = (r, s\<lparr>objs := (objs s)(r := (objs s r)\<lparr>c_success := v\<rparr>)\<rparr>)"

definition chain_fail :: "nat \<Rightarrow> jsval \<Rightarrow> store \<Rightarrow> nat \<times> store" where
  "chain_fail r v s = (r, s\<lparr>objs := (objs s)(r := (objs s r)\<lparr>c_failure := v\<rparr>)\<rparr>)"

definition chain_func :: "nat \<Rightarrow> store \<Rightarrow> (jsval + ntil_result) \<times> store" where
  "chain_func r s =
     (let b = objs s r in ntil (c_checker b) (c_perform b) (c_success b) (c_failure b) (c_opts b) s)"

section \<open>One handler invocation\<close>

text \<open>
  The engine is observed through the calls it makes to its collaborators: the performer,
  the checker, the success and failure callbacks, the logger and \<^verbatim>\<open>setTimeout\<close>. A log
  message is kept as the pieces the source concatenates, so that no number formatting is
  modelled.
\<close>

datatype fragment = Txt string | Cnt nat | Amt real | Exn jsval

datatype effect =
    CallPerformer "jsval list"
  | CallChecker "jsval list"
  | CallSuccess fn "jsval list"
  | CallFailure fn "jsval list"
  | Info "fragment list"
  | Warn "fragment list"
  | SetTimeout real

text \<open>
  What one call of the performer does before it returns: the completions it makes
  synchronously (each a list of result values passed to \<^verbatim>\<open>next\<close>), and the value it
  throws, if any. Completions made later arrive as events.
\<close>

record outcome =
  completes :: "jsval list list"
  raises :: "jsval option"

text \<open>
  The collaborators: the value a function returns when applied as the checker, and what a
  function does at its \<open>n\<close>-th application as the performer of one handler invocation
  (counted from \<open>0\<close>). The checker, the callbacks and the logger are taken to return
  normally. With them comes the host's arithmetic: \<open>multiply\<close> is the value of the expression
  \<^verbatim>\<open>x * y\<close> on two numbers, in JavaScript the exact product rounded to a double.
\<close>

record world =
  checker_of :: "fn \<Rightarrow> jsval list \<Rightarrow> jsval"
  performer_of :: "fn \<Rightarrow> nat \<Rightarrow> jsval list \<Rightarrow> outcome"
  multiply :: "real \<Rightarrow> real \<Rightarrow> real"

text \<open>
  The variables \<^verbatim>\<open>wait\<close> and \<^verbatim>\<open>calls\<close> of one handler invocation, with the number of
  timeouts that are scheduled and have not fired, the number of performer applications
  made so far, and the calls made to the collaborators so far.
\<close>

record attempt =
  wait :: real
  calls :: nat
  timers :: nat
  invoked :: nat
  trace :: "effect list"

definition emit :: "effect list \<Rightarrow> attempt \<Rightarrow> attempt" where
  "emit es st = st\<lparr>trace := trace st @ es\<rparr>"

definition msg_success :: "handler \<Rightarrow> fragment list" where
  "msg_success h = [Txt (h_name h @ '': success'')]"

definition msg_retry :: "handler \<Rightarrow> nat \<Rightarrow> real \<Rightarrow> fragment list" where
  "msg_retry h c w =
     [Txt (h_name h @ '': ''), Cnt c,
      Txt ('' failure'' @ (if c = 1 then [] else ''s'') @ '' - trying again in ''), Amt w,
      Txt '' seconds'']"

definition msg_too_many :: "handler \<Rightarrow> nat \<Rightarrow> fragment list" where
  "msg_too_many h c = [Txt (h_name h @ '': too many failures (''), Cnt c, Txt '')'']"

definition msg_exception :: "handler \<Rightarrow> jsval \<Rightarrow> fragment list" where
  "msg_exception h e =
     [Txt (h_name h @ '': exception '' @ [CHR 0x22]), Exn e, Txt [CHR 0x22]]"

text \<open>\<^verbatim>\<open>if (typeof f === 'function') f.apply(f, result)\<close>\<close>

definition call_success :: "jsval \<Rightarrow> jsval list \<Rightarrow> effect list" where
  "call_success f result = (case f of JFunction g \<Rightarrow> [CallSuccess g result] | _ \<Rightarrow> [])"

definition call_failure :: "jsval \<Rightarrow> jsval list \<Rightarrow> effect list" where
  "call_failure f result = (case f of JFunction g \<Rightarrow> [CallFailure g result] | _ \<Rightarrow> [])"

text \<open>\<^verbatim>\<open>checker.apply(checker, result) === true\<close>\<close>

definition accepted :: "world \<Rightarrow> handler \<Rightarrow> jsval list \<Rightarrow> bool" where
  "accepted w h result = (checker_of w (h_checker h) result = JBool True)"

text \<open>
  \<^verbatim>\<open>function next()\<close>, lines 152-170, applied to the result values. The two products
  \<^verbatim>\<open>wait * 1000\<close> and \<^verbatim>\<open>wait *= waitMult\<close> are the host's.
\<close>

definition next_cb :: "world \<Rightarrow> handler \<Rightarrow> jsval list \<Rightarrow> attempt \<Rightarrow> attempt" where
  "next_cb w h result st0 =
     (let st = emit [CallChecker result] st0 in
      if accepted w h result then
        emit (call_success (h_success h) result)
          (emit (if h_logger h then [Info (msg_success h)] else []) st)
      else
        (let st1 = st\<lparr>calls := calls st + 1\<rparr> in
         if real (calls st1) < h_maxCalls h then
           (let st2 = emit (if h_logger h then [Warn (msg_retry h (calls st1) (wait st1))] else []) st1;
                st3 = (emit [SetTimeout (multiply w (wait st2) 1000)] st2)
                        \<lparr>timers := timers st2 + 1\<rparr>
            in st3\<lparr>wait := multiply w (wait st3) (h_waitMult h)\<rparr>)
         else
           emit (call_failure (h_failure h) result)
             (emit (if h_logger h then [Warn (msg_too_many h (calls st1))] else []) st1)))"

text \<open>
  \<^verbatim>\<open>function invoke()\<close>, lines 172-179: the performer is applied to the captured arguments
  (followed by \<^verbatim>\<open>next\<close>, which the trace leaves out); its synchronous completions run
  \<^verbatim>\<open>next\<close> in order; a thrown value is caught, logged, and \<^verbatim>\<open>next()\<close> is called.
\<close>

definition invoke :: "world \<Rightarrow> handler \<Rightarrow> jsval list \<Rightarrow> attempt \<Rightarrow> attempt" where
  "invoke w h args st0 =
     (let out = performer_of w (h_performer h) (invoked st0) args;
          st1 = (emit [CallPerformer args] st0)\<lparr>invoked := invoked st0 + 1\<rparr>;
          st2 = fold (next_cb w h) (completes out) st1
      in case raises out of
           None \<Rightarrow> st2
         | Some e \<Rightarrow>
             next_cb w h [] (emit (if h_logger h then [Warn (msg_exception h e)] else []) st2))"

text \<open>
  The handler closure, lines 147-183: what has happened when the call \<^verbatim>\<open>handler(args)\<close>
  returns.
\<close>

definition handler_call :: "world \<Rightarrow> handler \<Rightarrow> jsval list \<Rightarrow> attempt" where
  "handler_call w h args =
     invoke w h args \<lparr>wait = h_waitSecs h, calls = 0, timers = 0, invoked = 0, trace = []\<rparr>"

text \<open>
  After the handler call has returned, the host runs the invocation's callbacks one at a
  time: a scheduled timeout fires and runs \<^verbatim>\<open>invoke\<close>, or the performer completes
  asynchronously and runs \<^verbatim>\<open>next\<close>. A timeout can fire only if one is pending.
\<close>

datatype event = TimerFires | Completes "jsval list"

fun step :: "world \<Rightarrow> handler \<Rightarrow> jsval list \<Rightarrow> event \<Rightarrow> attempt \<Rightarrow> attempt option" where
  "step w h args TimerFires st =
     (if timers st = 0 then None else Some (invoke w h args (st\<lparr>timers := timers st - 1\<rparr>)))"
| "step w h args (Completes result) st = Some (next_cb w h result st)"

fun run :: "world \<Rightarrow> handler \<Rightarrow> jsval list \<Rightarrow> event list \<Rightarrow> attempt \<Rightarrow> attempt option" where
  "run w h args [] st = Some st"
| "run w h args (ev # evs) st =
     (case step w h args ev st of None \<Rightarrow> None | Some st' \<Rightarrow> run w h args evs st')"

definition handler_run :: "world \<Rightarrow> handler \<Rightarrow> jsval list \<Rightarrow> event list \<Rightarrow> attempt option" where
  "handler_run w h args evs = run w h args evs (handler_call w h args)"

section \<open>The product of two doubles\<close>

text \<open>
  IEEE 754 binary64 with the default rounding, for finite results: a real number is
  scaled by powers of two until it lies in \<open>[2^52, 2^53)\<close> (or until the smallest exponent,
  \<open>-1074\<close>, is reached: the subnormal numbers), rounded there to the nearest integer with
  ties to the even one, and scaled back. A result of magnitude \<open>2^1024\<close> or more, which
  JavaScript makes infinite, is outside the model.
\<close>

definition pow2 :: "int \<Rightarrow> real" where
  "pow2 e = (if 0 \<le> e then 2 ^ nat e else 1 / 2 ^ nat (- e))"

fun normalize :: "nat \<Rightarrow> real \<Rightarrow> int \<Rightarrow> real \<times> int" where
  "normalize 0 x e = (x, e)"
| "normalize (Suc n) x e =
     (if x < 2 ^ 52 \<and> - 1074 < e then normalize n (2 * x) (e - 1)
      else if 2 ^ 53 \<le> x then normalize n (x / 2) (e + 1)
      else (x, e))"

definition round_even :: "real \<Rightarrow> int" where
  "round_even m =
     (let f = \<lfloor>m\<rfloor>; r = m - of_int f
      in if r < 1 / 2 then f else if 1 / 2 < r then f + 1 else if even f then f else f + 1)"

definition round_double :: "real \<Rightarrow> real" where
  "round_double x =
     (if x = 0 then 0
      else case normalize 2200 \<bar>x\<bar> 0 of (m, e) \<Rightarrow> sgn x * of_int (round_even m) * pow2 e)"

definition double_times :: "real \<Rightarrow> real \<Rightarrow> real" where
  "double_times x y = round_double (x * y)"

text \<open>The double that the literal \<^verbatim>\<open>0.1\<close> denotes.\<close>

definition tenth :: real where
  "tenth = 3602879701896397 / 2 ^ 55"

section \<open>Collaborators used in the examples\<close>

text \<open>
  The example of the README: \<^verbatim>\<open>function(result) { return result === 3 }\<close> as the
  checker and \<^verbatim>\<open>function myFunc(a, b, next) { next(a + b) }\<close> as the performer. The
  performer is modelled on two number arguments only (elsewhere it is given no
  completion); the examples apply it to numbers.
\<close>

definition readme_checker :: "jsval list \<Rightarrow> jsval" where
  "readme_checker result = (case result of JNum x # rest \<Rightarrow> JBool (x = 3) | _ \<Rightarrow> JBool False)"

definition myFunc :: "nat \<Rightarrow> jsval list \<Rightarrow> outcome" where
  "myFunc n args =
     (case args of
        [JNum a, JNum b] \<Rightarrow> \<lparr>completes = [[JNum (a + b)]], raises = None\<rparr>
      | _ \<Rightarrow> \<lparr>completes = [], raises = None\<rparr>)"

definition readme_world :: world where
  "readme_world = \<lparr>checker_of = (\<lambda>f. readme_checker), performer_of = (\<lambda>f. myFunc),
     multiply = double_times\<rparr>"

text \<open>A checker that returns truthy values other than \<^verbatim>\<open>true\<close>: \<^verbatim>\<open>1\<close> and \<^verbatim>\<open>'ok'\<close>.\<close>

definition truthy_checker :: "jsval list \<Rightarrow> jsval" where
  "truthy_checker result = (case result of [] \<Rightarrow> JNum 1 | _ \<Rightarrow> JStr ''ok'')"

definition truthy_world :: world where
  "truthy_world = \<lparr>checker_of = (\<lambda>f. truthy_checker), performer_of = (\<lambda>f. myFunc),
     multiply = double_times\<rparr>"

definition checker_fn :: fn where "checker_fn = Fn [] 0"
definition myFunc_fn :: fn where "myFunc_fn = Fn ''myFunc'' 1"
definition success_fn :: fn where "success_fn = Fn [] 2"
definition failure_fn :: fn where "failure_fn = Fn [] 3"

definition empty_store :: store where
  "empty_store = \<lparr>objs = (\<lambda>r. \<lparr>c_checker = JUndefined, c_opts = JUndefined,
     c_perform = JUndefined, c_success = JUndefined, c_failure = JUndefined\<rparr>), fresh = 0\<rparr>"

text \<open>The handler of the README example, without a logger and with the default options.\<close>

definition readme_handler :: handler where
  "readme_handler = \<lparr>h_checker = checker_fn, h_performer = myFunc_fn,
     h_success = JFunction success_fn, h_failure = JFunction failure_fn,
     h_name = ''myFunc'', h_logger = False, h_waitSecs = 1, h_waitMult = 2, h_maxCalls = 7\<rparr>"

definition start :: attempt where
  "start = \<lparr>wait = 1, calls = 0, timers = 0, invoked = 1, trace = []\<rparr>"






text \<open>The number of calls of the failure callback recorded in a trace.\<close>

fun is_failure :: "effect \<Rightarrow> bool" where
  "is_failure (CallFailure f result) = True"
| "is_failure e = False"

definition failures :: "effect list \<Rightarrow> nat" where
  "failures tr = length (filter is_failure tr)"

text \<open>The number of completions processed (checker calls) recorded in a trace.\<close>

fun is_check :: "effect \<Rightarrow> bool" where
  "is_check (CallChecker result) = True"
| "is_check e = False"

definition checks :: "effect list \<Rightarrow> nat" where
  "checks tr = length (filter is_check tr)"

text \<open>
  The performer's calling convention: one application completes at most once before it
  returns (a throw counts as a completion, since it is turned into \<^verbatim>\<open>next()\<close>), and a
  later completion arrives only while an application is still waiting for one. \<open>obeys\<close>
  checks the convention along the events that follow a state, \<open>obeys_from_call\<close> along a
  whole handler invocation.
\<close>

definition once :: "outcome \<Rightarrow> bool" where
  "once out = (length (completes out) + (case raises out of None \<Rightarrow> 0 | Some e \<Rightarrow> 1) \<le> 1)"

fun obeys :: "world \<Rightarrow> handler \<Rightarrow> jsval list \<Rightarrow> event list \<Rightarrow> attempt \<Rightarrow> bool" where
  "obeys w h args [] st = True"
| "obeys w h args (TimerFires # evs) st =
     (timers st \<noteq> 0 \<and> once (performer_of w (h_performer h) (invoked st) args) \<and>
      obeys w h args evs (invoke w h args (st\<lparr>timers := timers st - 1\<rparr>)))"
| "obeys w h args (Completes result # evs) st =
     (checks (trace st) < invoked st \<and> obeys w h args evs (next_cb w h result st))"

definition obeys_from_call :: "world \<Rightarrow> handler \<Rightarrow> jsval list \<Rightarrow> event list \<Rightarrow> bool" where
  "obeys_from_call w h args evs =
     (once (performer_of w (h_performer h) 0 args) \<and> obeys w h args evs (handler_call w h args))"

text \<open>
  The state of an invocation that follows the convention, for a whole number \<open>n\<close> as
  \<^verbatim>\<open>maxCalls\<close>: at most one timeout or one awaited completion is outstanding, and only
  while the counter is below \<open>n\<close>; the failure callback has been called once if the counter
  is \<open>n\<close> and not at all otherwise.
\<close>

definition settled :: "handler \<Rightarrow> nat \<Rightarrow> attempt \<Rightarrow> bool" where
  "settled h n st =
     (checks (trace st) \<le> invoked st \<and>
      timers st + (invoked st - checks (trace st)) \<le> 1 \<and>
      (timers st + (invoked st - checks (trace st)) = 1 \<longrightarrow> calls st < n) \<and>
      calls st \<le> n \<and>
      failures (trace st) = (if calls st = n \<and> is_function (h_failure h) then 1 else 0))"

definition awaiting :: "nat \<Rightarrow> attempt \<Rightarrow> bool" where
  "awaiting n st =
     (invoked st = checks (trace st) + 1 \<and> timers st = 0 \<and> calls st < n \<and>
      failures (trace st) = 0)"

section \<open>Chained calls on a builder\<close>

text \<open>
  A call of one of the four setters, and a chain \<^verbatim>\<open>b.m1(v1).m2(v2)...\<close>: each method is
  called on the object the previous call returned.
\<close>

datatype setter = SetOpts jsval | SetExec jsval | SetDone jsval | SetFail jsval

fun apply_setter :: "nat \<Rightarrow> setter \<Rightarrow> store \<Rightarrow> nat \<times> store" where
  "apply_setter r (SetOpts v) s = chain_opts r v s"
| "apply_setter r (SetExec v) s = chain_exec r v s"
| "apply_setter r (SetDone v) s = chain_done r v s"
| "apply_setter r (SetFail v) s = chain_fail r v s"

fun chained :: "nat \<Rightarrow> setter list \<Rightarrow> store \<Rightarrow> nat \<times> store" where
  "chained r [] s = (r, s)"
| "chained r (c # cs) s = (case apply_setter r c s of (r', s') \<Rightarrow> chained r' cs s')"

text \<open>
  The fluent use \<^verbatim>\<open>ntil(checker).m1(v1)...mk(vk).func()\<close>; the arguments that
  \<^verbatim>\<open>ntil(checker)\<close> leaves out are \<^verbatim>\<open>undefined\<close>.
\<close>

definition fluent :: "jsval \<Rightarrow> setter list \<Rightarrow> store \<Rightarrow> (jsval + ntil_result) \<times> store" where
  "fluent checker cs s =
     (case ntil checker JUndefined JUndefined JUndefined JUndefined s of
        (Inr (Builder b), s0) \<Rightarrow> (case chained b cs s0 of (b', s1) \<Rightarrow> chain_func b' s1)
      | res \<Rightarrow> res)"

text \<open>
  What a caller gets from a constructor call: the thrown value, the handler, or the
  contents of the builder behind the returned reference.
\<close>

datatype view = Threw jsval | GotHandler handler | GotBuilder chain

definition observe :: "(jsval + ntil_result) \<times> store \<Rightarrow> view" where
  "observe res =
     (case fst res of
        Inl e \<Rightarrow> Threw e
      | Inr (Handler h) \<Rightarrow> GotHandler h
      | Inr (Builder r) \<Rightarrow> GotBuilder (objs (snd res) r))"

text \<open>
  The argument of the last call of a setter in a chain, \<open>v\<close> if the chain does not call it.
\<close>

definition last_opts :: "setter list \<Rightarrow> jsval \<Rightarrow> jsval" where
  "last_opts cs v = fold (\<lambda>c v. case c of SetOpts x \<Rightarrow> x | _ \<Rightarrow> v) cs v"

definition last_exec :: "setter list \<Rightarrow> jsval \<Rightarrow> jsval" where
  "last_exec cs v = fold (\<lambda>c v. case c of SetExec x \<Rightarrow> x | _ \<Rightarrow> v) cs v"

definition last_done :: "setter list \<Rightarrow> jsval \<Rightarrow> jsval" where
  "last_done cs v = fold (\<lambda>c v. case c of SetDone x \<Rightarrow> x | _ \<Rightarrow> v) cs v"

definition last_fail :: "setter list \<Rightarrow> jsval \<Rightarrow> jsval" where
  "last_fail cs v = fold (\<lambda>c v. case c of SetFail x \<Rightarrow> x | _ \<Rightarrow> v) cs v"

section \<open>Performers that throw\<close>







section \<open>Reading the backoff off a trace\<close>

text \<open>
  The number of rejected results in a trace, and for every timeout scheduled in it the
  pair of the number of results rejected up to there and the delay in milliseconds.
\<close>

definition is_rejection :: "world \<Rightarrow> handler \<Rightarrow> effect \<Rightarrow> bool" where
  "is_rejection w h e = (case e of CallChecker result \<Rightarrow> \<not> accepted w h result | _ \<Rightarrow> False)"

definition rejections :: "world \<Rightarrow> handler \<Rightarrow> effect list \<Rightarrow> nat" where
  "rejections w h tr = length (filter (is_rejection w h) tr)"

fun scheduled :: "world \<Rightarrow> handler \<Rightarrow> nat \<Rightarrow> effect list \<Rightarrow> (nat \<times> real) list" where
  "scheduled w h k [] = []"
| "scheduled w h k (CallChecker result # tr) =
     scheduled w h (if accepted w h result then k else k + 1) tr"
| "scheduled w h k (SetTimeout d # tr) = (k, d) # scheduled w h k tr"
| "scheduled w h k (e # tr) = scheduled w h k tr"

text \<open>The rejections, numbered from \<open>1\<close>, after which a retry is due: those below \<^verbatim>\<open>maxCalls\<close>.\<close>

definition retried :: "handler \<Rightarrow> nat \<Rightarrow> nat list" where
  "retried h c = filter (\<lambda>k. real k < h_maxCalls h) [1..<Suc c]"

text \<open>
  The value of \<^verbatim>\<open>wait\<close> after \<open>k\<close> executions of \<^verbatim>\<open>wait *= waitMult\<close>, each product being
  the host's.
\<close>

fun backoff :: "world \<Rightarrow> handler \<Rightarrow> nat \<Rightarrow> real" where
  "backoff w h 0 = h_waitSecs h"
| "backoff w h (Suc k) = multiply w (backoff w h k) (h_waitMult h)"

text \<open>
  The bookkeeping of an invocation: the counter is the number of rejected results, the
  timeouts scheduled so far are those of the rejections below \<^verbatim>\<open>maxCalls\<close>, the \<open>k\<close>-th
  with the value that \<^verbatim>\<open>wait\<close> has after \<open>k - 1\<close> multiplications, times \<open>1000\<close>, and
  \<^verbatim>\<open>wait\<close> has been multiplied once for each of them.
\<close>

definition geometric :: "world \<Rightarrow> handler \<Rightarrow> attempt \<Rightarrow> bool" where
  "geometric w h st =
     (calls st = rejections w h (trace st) \<and>
      scheduled w h 0 (trace st) =
        map (\<lambda>k. (k, multiply w (backoff w h (k - 1)) 1000)) (retried h (calls st)) \<and>
      wait st = backoff w h (length (retried h (calls st))))"


text \<open>The README handler with \<^verbatim>\<open>{waitSecs: 0.1, waitMult: 3}\<close>.\<close>

definition tenth_handler :: handler where
  "tenth_handler = readme_handler\<lparr>h_waitSecs := tenth, h_waitMult := 3\<rparr>"

text \<open>
  The performer applications made and the timeouts pending account for the timeouts
  scheduled, up to the \<open>c\<close> applications that no timeout made.
\<close>

definition balanced :: "world \<Rightarrow> handler \<Rightarrow> nat \<Rightarrow> attempt \<Rightarrow> bool" where
  "balanced w h c st = (invoked st + timers st = length (scheduled w h 0 (trace st)) + c)"

section \<open>Basic facts about \<open>next\<close>\<close>

lemma next_cb_calls:
  "calls (next_cb w h r st) = (if accepted w h r then calls st else calls st + 1)"
  by (simp add: next_cb_def emit_def Let_def)

lemma next_cb_invoked: "invoked (next_cb w h r st) = invoked st"
  by (simp add: next_cb_def emit_def Let_def)

lemma next_cb_wait:
  "wait (next_cb w h r st) =
     (if \<not> accepted w h r \<and> real (calls st + 1) < h_maxCalls h
      then multiply w (wait st) (h_waitMult h) else wait st)"
  by (simp add: next_cb_def emit_def Let_def)

lemma next_cb_timers:
  "timers (next_cb w h r st) =
     (if \<not> accepted w h r \<and> real (calls st + 1) < h_maxCalls h
      then timers st + 1 else timers st)"
  by (simp add: next_cb_def emit_def Let_def)

lemma next_cb_trace:
  "trace (next_cb w h r st) = trace st @ CallChecker r #
     (if accepted w h r then
        (if h_logger h then [Info (msg_success h)] else []) @ call_success (h_success h) r
      else if real (calls st + 1) < h_maxCalls h then
        (if h_logger h then [Warn (msg_retry h (calls st + 1) (wait st))] else []) @
        [SetTimeout (multiply w (wait st) 1000)]
      else
        (if h_logger h then [Warn (msg_too_many h (calls st + 1))] else []) @
        call_failure (h_failure h) r)"
  by (simp add: next_cb_def emit_def Let_def)

section \<open>Evaluating the product of two doubles\<close>

lemma normalize_down:
  "x * 2 ^ k < 2 ^ 53 \<Longrightarrow> 2 ^ 52 \<le> x * 2 ^ k \<or> e - int k = - 1074 \<Longrightarrow> 0 < x \<Longrightarrow>
   - 1074 \<le> e - int k \<Longrightarrow> k \<le> n \<Longrightarrow> normalize n x e = (x * 2 ^ k, e - int k)"
proof (induction k arbitrary: x e n)
  case 0
  then show ?case by (cases n) auto
next
  case (Suc k)
  from Suc.prems(5) obtain n' where n: "n = Suc n'" and le: "k \<le> n'"
    by (cases n) auto
  have "x * 2 \<le> x * 2 ^ Suc k"
    using Suc.prems(3) by (simp add: self_le_power)
  with Suc.prems(1) have small: "x < 2 ^ 52"
    by simp
  from Suc.prems(4) have room: "- 1074 < e"
    by simp
  have "normalize n' (2 * x) (e - 1) = (2 * x * 2 ^ k, e - 1 - int k)"
    using Suc.prems by (intro Suc.IH le) (simp_all add: mult.assoc)
  with small room show ?case
    by (simp add: n mult.assoc mult.left_commute)
qed

lemma normalize_up:
  "2 ^ 52 \<le> x / 2 ^ k \<Longrightarrow> x / 2 ^ k < 2 ^ 53 \<Longrightarrow> k \<le> n \<Longrightarrow>
   normalize n x e = (x / 2 ^ k, e + int k)"
proof (induction k arbitrary: x e n)
  case 0
  then show ?case by (cases n) auto
next
  case (Suc k)
  from Suc.prems(3) obtain n' where n: "n = Suc n'" and le: "k \<le> n'"
    by (cases n) auto
  have s1: "(2::real) ^ 52 * 2 ^ Suc k \<le> x"
    using Suc.prems(1) by (simp add: pos_le_divide_eq)
  have "(2::real) ^ 52 * 2 ^ 1 \<le> 2 ^ 52 * 2 ^ Suc k"
    by (intro mult_left_mono power_increasing) simp_all
  then have s2: "(2::real) ^ 53 \<le> 2 ^ 52 * 2 ^ Suc k"
    by simp
  from s2 s1 have big: "2 ^ 53 \<le> x"
    by (rule order_trans)
  have "normalize n' (x / 2) (e + 1) = (x / 2 / 2 ^ k, e + 1 + int k)"
    using Suc.prems by (intro Suc.IH le) simp_all
  with big show ?case
    by (simp add: n)
qed

lemma round_double_down:
  assumes "0 < x" and "2 ^ 52 \<le> x * 2 ^ k" and "x * 2 ^ k < 2 ^ 53" and "k \<le> 1074"
  shows "round_double x = of_int (round_even (x * 2 ^ k)) / 2 ^ k"
proof -
  have "normalize 2200 \<bar>x\<bar> 0 = (\<bar>x\<bar> * 2 ^ k, 0 - int k)"
    using assms by (intro normalize_down) simp_all
  then show ?thesis
    using assms(1) by (simp add: round_double_def pow2_def)
qed

lemma round_double_up:
  assumes "0 < x" and "2 ^ 52 \<le> x / 2 ^ k" and "x / 2 ^ k < 2 ^ 53" and "k \<le> 2200"
  shows "round_double x = of_int (round_even (x / 2 ^ k)) * 2 ^ k"
proof -
  have "normalize 2200 \<bar>x\<bar> 0 = (\<bar>x\<bar> / 2 ^ k, 0 + int k)"
    using assms by (intro normalize_up) simp_all
  then show ?thesis
    using assms(1) by (simp add: round_double_def pow2_def)
qed

text \<open>
  The products of the examples: those of the powers of two are exact, those that start
  from \<open>0.1\<close> are rounded (\<open>4503599627370496\<close> is \<open>2^52\<close>).
\<close>

lemma double_times_small:
  "double_times 1 2 = 2" "double_times 2 2 = 4" "double_times 4 2 = 8" "double_times 8 2 = 16"
  "double_times 1 1000 = 1000" "double_times 2 1000 = 2000" "double_times 4 1000 = 4000"
  "double_times 8 1000 = 8000"
  unfolding double_times_def
  by (simp_all add: round_double_down [of _ 51] round_double_down [of _ 50]
      round_double_down [of _ 49] round_double_down [of _ 48] round_double_down [of _ 43]
      round_double_down [of _ 42] round_double_down [of _ 41] round_double_down [of _ 40]
      round_even_def)

lemma double_times_tenth:
  "round_double (1 / 10) = tenth"
  "double_times tenth 1000 = 100"
  "double_times tenth 3 = 1351079888211149 / 4503599627370496"
  "double_times (1351079888211149 / 4503599627370496) 1000 = 300 + 1 / 2 ^ 44"
  "double_times (1351079888211149 / 4503599627370496) 3 = 4053239664633447 / 4503599627370496"
  "double_times (4053239664633447 / 4503599627370496) 1000 = 900 + 1 / 2 ^ 43"
  "double_times (4053239664633447 / 4503599627370496) 3 = 3039929748475085 / 2 ^ 50"
  "double_times 3 3 = 9"
  "double_times tenth 9 = 8106479329266893 / 9007199254740992"
  "double_times (8106479329266893 / 9007199254740992) 1000 = 900"
  unfolding double_times_def tenth_def
  by (simp_all add: round_double_down [of _ 56] round_double_down [of _ 46]
      round_double_down [of _ 54] round_double_down [of _ 44] round_double_down [of _ 53]
      round_double_down [of _ 43] round_double_down [of _ 51] round_double_down [of _ 49]
      round_even_def)

section \<open>Construction\<close>

text \<open>
  C8. A checker that is not a function makes \<^verbatim>\<open>ntil\<close> throw at the constructor call: the
  thrown value is the string naming the expected call signature, nothing is allocated and
  neither a builder nor a handler is returned, whatever the other arguments are.
\<close>

theorem ntil_throws_on_non_function_checker:
  "\<not> is_function checker \<Longrightarrow>
   ntil checker performer success failure opts s =
     (Inl (JStr ''Check params: function ntil(checker, performer, success, failure, opts)''), s)"
  by (cases checker) (simp_all add: ntil_def sig_def Let_def)

theorem ntil_throws_on_non_function_checker_witness:
  "\<not> is_function (JNum 5) \<and>
   ntil (JNum 5) (JFunction myFunc_fn) JUndefined JUndefined JUndefined empty_store =
     (Inl (JStr ''Check params: function ntil(checker, performer, success, failure, opts)''),
      empty_store)"
  using ntil_throws_on_non_function_checker
    [of "JNum 5" "JFunction myFunc_fn" JUndefined JUndefined JUndefined empty_store]
  by simp

text \<open>
  C7. With a function as checker and a second argument that is not a function, \<^verbatim>\<open>ntil\<close>
  returns no handler but a reference to a newly allocated builder that holds the checker
  and has the second argument in its options slot, its performer, success and failure
  slots being undefined; after \<^verbatim>\<open>exec(p)\<close>, \<^verbatim>\<open>func()\<close> yields what
  \<^verbatim>\<open>ntil(checker, p, undefined, undefined, second)\<close> yields, that is, a handler that uses
  the second argument as its options.
\<close>

theorem ntil_returns_builder_seeded_with_options:
  assumes "is_function checker" and "\<not> is_function second"
  shows "fst (ntil checker second success failure opts s) = Inr (Builder (fresh s)) \<and>
    objs (snd (ntil checker second success failure opts s)) (fresh s) =
      \<lparr>c_checker = checker, c_opts = second, c_perform = JUndefined,
       c_success = JUndefined, c_failure = JUndefined\<rparr> \<and>
    fst (chain_func (fresh s) (snd (chain_exec (fresh s) (JFunction p)
          (snd (ntil checker second success failure opts s))))) =
      fst (ntil checker (JFunction p) JUndefined JUndefined second s)"
proof -
  obtain c where c: "checker = JFunction c"
    using assms(1) by (cases checker) simp_all
  have built: "ntil checker second success failure opts s = (Inr (Builder (fresh s)),
      s\<lparr>objs := (objs s)(fresh s := \<lparr>c_checker = checker, c_opts = second,
             c_perform = JUndefined, c_success = JUndefined, c_failure = JUndefined\<rparr>),
        fresh := Suc (fresh s)\<rparr>)"
    using assms(2) by (cases second) (simp_all add: c ntil_def new_chain_def Let_def)
  have "fst (chain_func (fresh s) (snd (chain_exec (fresh s) (JFunction p)
          (snd (ntil checker second success failure opts s))))) =
      fst (ntil checker (JFunction p) JUndefined JUndefined second s)"
    unfolding built
    by (simp add: c chain_func_def chain_exec_def ntil_def Let_def)
  then show ?thesis
    by (simp add: built)
qed

theorem ntil_returns_builder_seeded_with_options_witness:
  "is_function (JFunction checker_fn) \<and>
   \<not> is_function (JObject (empty_object\<lparr>opt_maxCalls := Some 3\<rparr>)) \<and>
   fst (ntil (JFunction checker_fn) (JObject (empty_object\<lparr>opt_maxCalls := Some 3\<rparr>))
          JUndefined JUndefined JUndefined empty_store) = Inr (Builder 0) \<and>
   fst (chain_func 0 (snd (chain_exec 0 (JFunction myFunc_fn)
          (snd (ntil (JFunction checker_fn) (JObject (empty_object\<lparr>opt_maxCalls := Some 3\<rparr>))
             JUndefined JUndefined JUndefined empty_store))))) =
     Inr (Handler (readme_handler\<lparr>h_success := JUndefined, h_failure := JUndefined,
        h_maxCalls := 3\<rparr>))"
  using ntil_returns_builder_seeded_with_options
    [of "JFunction checker_fn" "JObject (empty_object\<lparr>opt_maxCalls := Some 3\<rparr>)"
        JUndefined JUndefined JUndefined empty_store myFunc_fn]
  by (simp add: empty_store_def ntil_def Let_def empty_object_def or_num_def or_str_def
      readme_handler_def checker_fn_def myFunc_fn_def)

section \<open>Acceptance and rejection\<close>

lemma no_success_in_failure: "CallSuccess g r \<notin> set (call_failure f r')"
  by (cases f) (simp_all add: call_failure_def)

lemma no_info_in_failure: "Info m \<notin> set (call_failure f r')"
  by (cases f) (simp_all add: call_failure_def)

text \<open>
  C3. A completion is accepted exactly when the checker returns the boolean \<open>true\<close>: then
  \<^verbatim>\<open>next\<close> only logs the success and calls the success callback, and the attempt state
  is untouched. On any other returned value (the witness takes the truthy values \<open>1\<close> and
  \<open>'ok'\<close>) the counter is incremented, neither the success callback nor the success log
  line occurs, and the call either schedules a retry or ends in the failure callback.
\<close>

theorem accepted_only_on_true:
  "(checker_of w (h_checker h) result = JBool True \<longrightarrow>
      next_cb w h result st =
        emit (CallChecker result # (if h_logger h then [Info (msg_success h)] else []) @
              call_success (h_success h) result) st) \<and>
   (checker_of w (h_checker h) result \<noteq> JBool True \<longrightarrow>
      calls (next_cb w h result st) = calls st + 1 \<and>
      (\<forall>g r. CallSuccess g r \<notin> set (drop (length (trace st)) (trace (next_cb w h result st)))) \<and>
      (\<forall>m. Info m \<notin> set (drop (length (trace st)) (trace (next_cb w h result st)))) \<and>
      (if real (calls st + 1) < h_maxCalls h
       then timers (next_cb w h result st) = timers st + 1 \<and>
            last (trace (next_cb w h result st)) = SetTimeout (multiply w (wait st) 1000)
       else timers (next_cb w h result st) = timers st \<and>
            drop (length (trace st)) (trace (next_cb w h result st)) =
              CallChecker result #
              (if h_logger h then [Warn (msg_too_many h (calls st + 1))] else []) @
              call_failure (h_failure h) result))"
proof (intro conjI impI)
  assume "checker_of w (h_checker h) result = JBool True"
  then show "next_cb w h result st =
        emit (CallChecker result # (if h_logger h then [Info (msg_success h)] else []) @
              call_success (h_success h) result) st"
    by (simp add: next_cb_def accepted_def emit_def)
next
  assume "checker_of w (h_checker h) result \<noteq> JBool True"
  then have rej: "\<not> accepted w h result"
    by (simp add: accepted_def)
  show "calls (next_cb w h result st) = calls st + 1"
    using rej by (simp add: next_cb_calls)
  show "\<forall>g r. CallSuccess g r \<notin> set (drop (length (trace st)) (trace (next_cb w h result st)))"
    using rej by (simp add: next_cb_trace no_success_in_failure)
  show "\<forall>m. Info m \<notin> set (drop (length (trace st)) (trace (next_cb w h result st)))"
    using rej by (simp add: next_cb_trace no_info_in_failure)
  show "if real (calls st + 1) < h_maxCalls h
       then timers (next_cb w h result st) = timers st + 1 \<and>
            last (trace (next_cb w h result st)) = SetTimeout (multiply w (wait st) 1000)
       else timers (next_cb w h result st) = timers st \<and>
            drop (length (trace st)) (trace (next_cb w h result st)) =
              CallChecker result #
              (if h_logger h then [Warn (msg_too_many h (calls st + 1))] else []) @
              call_failure (h_failure h) result"
    using rej by (simp add: next_cb_trace next_cb_timers)
qed

theorem accepted_only_on_true_witness:
  "checker_of truthy_world (h_checker readme_handler) [] = JNum 1 \<and>
   truthy (JNum 1) \<and> JNum 1 \<noteq> JBool True \<and>
   calls (next_cb truthy_world readme_handler [] start) = 1 \<and>
   timers (next_cb truthy_world readme_handler [] start) = 1 \<and>
   checker_of truthy_world (h_checker readme_handler) [JNum 3] = JStr ''ok'' \<and>
   truthy (JStr ''ok'') \<and> JStr ''ok'' \<noteq> JBool True \<and>
   calls (next_cb truthy_world readme_handler [JNum 3] start) = 1 \<and>
   checker_of readme_world (h_checker readme_handler) [JNum 3] = JBool True \<and>
   next_cb readme_world readme_handler [JNum 3] start =
     emit [CallChecker [JNum 3], CallSuccess success_fn [JNum 3]] start"
  using accepted_only_on_true [of truthy_world readme_handler "[]" start]
    accepted_only_on_true [of truthy_world readme_handler "[JNum 3]" start]
    accepted_only_on_true [of readme_world readme_handler "[JNum 3]" start]
  by (simp add: truthy_world_def truthy_checker_def readme_world_def readme_checker_def
      readme_handler_def start_def call_success_def)



section \<open>The first attempt runs inside the handler call\<close>






















section \<open>Option defaults and exhaustion\<close>

text \<open>
  C4, as stated, fails for \<^verbatim>\<open>maxCalls: 0\<close>: the value is falsy, so
  \<^verbatim>\<open>opts.maxCalls || 7\<close> is \<open>7\<close>; the handler is the one built with the defaults, and
  the first rejection schedules a retry after one second instead of ending the sequence.
\<close>

theorem maxCalls_zero_takes_default_example:
  "fst (ntil (JFunction checker_fn) (JFunction myFunc_fn) (JFunction success_fn)
          (JFunction failure_fn) (JObject (empty_object\<lparr>opt_maxCalls := Some 0\<rparr>)) empty_store) =
     Inr (Handler readme_handler) \<and>
   h_maxCalls readme_handler = 7 \<and>
   handler_call readme_world readme_handler [JNum 1, JNum 1] =
     \<lparr>wait = 2, calls = 1, timers = 1, invoked = 1,
      trace = [CallPerformer [JNum 1, JNum 1], CallChecker [JNum 2], SetTimeout 1000]\<rparr>"
  by (simp add: ntil_def Let_def empty_object_def or_num_def or_str_def readme_handler_def
      checker_fn_def myFunc_fn_def handler_call_def invoke_def readme_world_def myFunc_def
      next_cb_def accepted_def readme_checker_def emit_def double_times_small)

text \<open>
  C4, amended. An option field takes its default when it is absent and also when it
  holds a falsy value (\<open>0\<close> for the three numbers, the empty string for the name); so a
  \<^verbatim>\<open>maxCalls\<close> of \<open>0\<close> is resolved to \<open>7\<close> and the first rejection schedules a retry.
  A configured \<^verbatim>\<open>maxCalls\<close> that is not \<open>0\<close> and at most \<open>1\<close> (a negative number, say)
  is kept, the comparison \<^verbatim>\<open>calls < maxCalls\<close> fails at the first rejection, and the
  invocation ends there: the failure callback is called if it is a function and no
  timeout is scheduled.
\<close>

theorem falsy_options_take_defaults:
  "fst (ntil (JFunction c) (JFunction p) su fa (JObject ob) s) =
     Inr (Handler \<lparr>h_checker = c, h_performer = p, h_success = su, h_failure = fa,
       h_name = (case opt_name ob of
                   Some (x # xs) \<Rightarrow> x # xs
                 | _ \<Rightarrow> if fn_name p = [] then ''anonymous function'' else fn_name p),
       h_logger = opt_logger ob,
       h_waitSecs = (case opt_waitSecs ob of None \<Rightarrow> 1 | Some x \<Rightarrow> if x = 0 then 1 else x),
       h_waitMult = (case opt_waitMult ob of None \<Rightarrow> 2 | Some x \<Rightarrow> if x = 0 then 2 else x),
       h_maxCalls = (case opt_maxCalls ob of None \<Rightarrow> 7 | Some x \<Rightarrow> if x = 0 then 7 else x)\<rparr>) \<and>
   (fst (ntil (JFunction c) (JFunction p) su fa (JObject ob) s) = Inr (Handler h) \<and>
    (opt_maxCalls ob = None \<or> opt_maxCalls ob = Some 0) \<and>
    \<not> accepted w h r \<and> calls st = 0 \<longrightarrow>
      h_maxCalls h = 7 \<and> timers (next_cb w h r st) = timers st + 1 \<and>
      last (trace (next_cb w h r st)) = SetTimeout (multiply w (wait st) 1000)) \<and>
   (fst (ntil (JFunction c) (JFunction p) su fa (JObject ob) s) = Inr (Handler h) \<and>
    opt_maxCalls ob = Some m \<and> m \<noteq> 0 \<and> m \<le> 1 \<and>
    \<not> accepted w h r \<and> calls st = 0 \<longrightarrow>
      next_cb w h r st =
        (emit (CallChecker r # (if h_logger h then [Warn (msg_too_many h 1)] else []) @
               call_failure (h_failure h) r) st)\<lparr>calls := 1\<rparr>)"
proof (intro conjI impI)
  show "fst (ntil (JFunction c) (JFunction p) su fa (JObject ob) s) =
     Inr (Handler \<lparr>h_checker = c, h_performer = p, h_success = su, h_failure = fa,
       h_name = (case opt_name ob of
                   Some (x # xs) \<Rightarrow> x # xs
                 | _ \<Rightarrow> if fn_name p = [] then ''anonymous function'' else fn_name p),
       h_logger = opt_logger ob,
       h_waitSecs = (case opt_waitSecs ob of None \<Rightarrow> 1 | Some x \<Rightarrow> if x = 0 then 1 else x),
       h_waitMult = (case opt_waitMult ob of None \<Rightarrow> 2 | Some x \<Rightarrow> if x = 0 then 2 else x),
       h_maxCalls = (case opt_maxCalls ob of None \<Rightarrow> 7 | Some x \<Rightarrow> if x = 0 then 7 else x)\<rparr>)"
    by (simp add: ntil_def Let_def or_num_def or_str_def split: option.splits list.splits)
next
  assume a: "fst (ntil (JFunction c) (JFunction p) su fa (JObject ob) s) = Inr (Handler h) \<and>
    (opt_maxCalls ob = None \<or> opt_maxCalls ob = Some 0) \<and> \<not> accepted w h r \<and> calls st = 0"
  then have m: "h_maxCalls h = 7"
    by (auto simp add: ntil_def Let_def or_num_def)
  show "h_maxCalls h = 7" by (rule m)
  show "timers (next_cb w h r st) = timers st + 1"
    using a m by (simp add: next_cb_timers)
  show "last (trace (next_cb w h r st)) = SetTimeout (multiply w (wait st) 1000)"
    using a m by (simp add: next_cb_trace)
next
  assume a: "fst (ntil (JFunction c) (JFunction p) su fa (JObject ob) s) = Inr (Handler h) \<and>
    opt_maxCalls ob = Some m \<and> m \<noteq> 0 \<and> m \<le> 1 \<and> \<not> accepted w h r \<and> calls st = 0"
  then have m: "h_maxCalls h = m"
    by (auto simp add: ntil_def Let_def or_num_def)
  show "next_cb w h r st =
        (emit (CallChecker r # (if h_logger h then [Warn (msg_too_many h 1)] else []) @
               call_failure (h_failure h) r) st)\<lparr>calls := 1\<rparr>"
    using a m by (simp add: next_cb_def emit_def Let_def)
qed

theorem falsy_options_take_defaults_witness:
  "fst (ntil (JFunction checker_fn) (JFunction myFunc_fn) (JFunction success_fn)
          (JFunction failure_fn) (JObject (empty_object\<lparr>opt_maxCalls := Some 0\<rparr>)) empty_store) =
     Inr (Handler readme_handler) \<and>
   \<not> accepted readme_world readme_handler [JNum 2] \<and> calls start = 0 \<and>
   timers (next_cb readme_world readme_handler [JNum 2] start) = 1 \<and>
   fst (ntil (JFunction checker_fn) (JFunction myFunc_fn) (JFunction success_fn)
          (JFunction failure_fn) (JObject (empty_object\<lparr>opt_maxCalls := Some (- 1)\<rparr>)) empty_store) =
     Inr (Handler (readme_handler\<lparr>h_maxCalls := - 1\<rparr>)) \<and>
   \<not> accepted readme_world (readme_handler\<lparr>h_maxCalls := - 1\<rparr>) [JNum 2] \<and>
   next_cb readme_world (readme_handler\<lparr>h_maxCalls := - 1\<rparr>) [JNum 2] start =
     (emit [CallChecker [JNum 2], CallFailure failure_fn [JNum 2]] start)\<lparr>calls := 1\<rparr>"
  using falsy_options_take_defaults
      [of checker_fn myFunc_fn "JFunction success_fn" "JFunction failure_fn"
          "empty_object\<lparr>opt_maxCalls := Some 0\<rparr>" empty_store readme_handler
          readme_world "[JNum 2]" start "- 1"]
    falsy_options_take_defaults
      [of checker_fn myFunc_fn "JFunction success_fn" "JFunction failure_fn"
          "empty_object\<lparr>opt_maxCalls := Some (- 1)\<rparr>" empty_store
          "readme_handler\<lparr>h_maxCalls := - 1\<rparr>" readme_world "[JNum 2]" start "- 1"]
  by (simp add: empty_object_def readme_handler_def checker_fn_def myFunc_fn_def
      accepted_def readme_world_def readme_checker_def start_def call_failure_def)

lemma filter_check_call_success: "filter is_check (call_success f r) = []"
  by (cases f) (simp_all add: call_success_def)

lemma filter_check_call_failure: "filter is_check (call_failure f r) = []"
  by (cases f) (simp_all add: call_failure_def)

lemma filter_failure_call_success: "filter is_failure (call_success f r) = []"
  by (cases f) (simp_all add: call_success_def)

lemma next_cb_checks: "checks (trace (next_cb w h r st)) = checks (trace st) + 1"
  by (simp add: checks_def next_cb_trace filter_check_call_success filter_check_call_failure)

lemma next_cb_failures:
  "failures (trace (next_cb w h r st)) = failures (trace st) +
     (if \<not> accepted w h r \<and> \<not> real (calls st + 1) < h_maxCalls h \<and> is_function (h_failure h)
      then 1 else 0)"
  by (cases "h_failure h")
     (simp_all add: failures_def next_cb_trace filter_failure_call_success call_failure_def)

lemma awaiting_settled: "awaiting n st \<Longrightarrow> settled h n st"
  by (simp add: awaiting_def settled_def)

lemma awaiting_next_cb:
  assumes "awaiting n st" and "h_maxCalls h = real n"
  shows "settled h n (next_cb w h r st)"
  using assms
  by (simp add: awaiting_def settled_def next_cb_checks next_cb_failures next_cb_calls
      next_cb_timers next_cb_invoked)

lemma settled_invoke:
  assumes st: "settled h n st" and pending: "timers st \<noteq> 0" and m: "h_maxCalls h = real n"
    and one: "once (performer_of w (h_performer h) (invoked st) args)"
  shows "settled h n (invoke w h args (st\<lparr>timers := timers st - 1\<rparr>))"
proof -
  let ?out = "performer_of w (h_performer h) (invoked st) args"
  let ?st1 = "(emit [CallPerformer args] (st\<lparr>timers := timers st - 1\<rparr>))
                \<lparr>invoked := invoked st + 1\<rparr>"
  have aw: "awaiting n ?st1"
    using st pending by (auto simp add: settled_def awaiting_def emit_def checks_def failures_def)
  consider (none) "completes ?out = []" "raises ?out = None"
    | (sync) r where "completes ?out = [r]" "raises ?out = None"
    | (throw) e where "completes ?out = []" "raises ?out = Some e"
    using one by (cases "completes ?out"; cases "raises ?out") (auto simp add: once_def)
  then show ?thesis
  proof cases
    case none
    then show ?thesis using awaiting_settled [OF aw] by (simp add: invoke_def Let_def)
  next
    case sync
    then show ?thesis using awaiting_next_cb [OF aw m] by (simp add: invoke_def Let_def)
  next
    case throw
    have "awaiting n (emit (if h_logger h then [Warn (msg_exception h e)] else []) ?st1)"
      using aw by (simp add: awaiting_def emit_def checks_def failures_def)
    from awaiting_next_cb [OF this m] throw show ?thesis
      by (simp add: invoke_def Let_def)
  qed
qed

lemma settled_handler_call:
  assumes m: "h_maxCalls h = real n" and pos: "1 \<le> n"
    and one: "once (performer_of w (h_performer h) 0 args)"
  shows "settled h n (handler_call w h args)"
proof -
  let ?st = "\<lparr>wait = h_waitSecs h, calls = 0, timers = 1, invoked = 0, trace = []\<rparr>"
  have "settled h n ?st"
    using pos by (simp add: settled_def checks_def failures_def)
  from settled_invoke [OF this _ m, of w args] one show ?thesis
    by (simp add: handler_call_def)
qed

lemma settled_run:
  assumes m: "h_maxCalls h = real n"
  shows "settled h n st \<Longrightarrow> obeys w h args evs st \<Longrightarrow>
    \<exists>st'. run w h args evs st = Some st' \<and> settled h n st'"
proof (induction evs arbitrary: st)
  case Nil
  then show ?case by simp
next
  case (Cons ev evs)
  show ?case
  proof (cases ev)
    case TimerFires
    with Cons.prems have pending: "timers st \<noteq> 0"
      and one: "once (performer_of w (h_performer h) (invoked st) args)"
      and rest: "obeys w h args evs (invoke w h args (st\<lparr>timers := timers st - 1\<rparr>))"
      by simp_all
    from Cons.IH [OF settled_invoke [OF Cons.prems(1) pending m one] rest] pending
    show ?thesis by (simp add: TimerFires)
  next
    case (Completes r)
    with Cons.prems have out: "checks (trace st) < invoked st"
      and rest: "obeys w h args evs (next_cb w h r st)"
      by simp_all
    from Cons.prems(1) out have "awaiting n st"
      by (auto simp add: settled_def awaiting_def)
    from Cons.IH [OF awaiting_next_cb [OF this m] rest]
    show ?thesis by (simp add: Completes)
  qed
qed

text \<open>
  C2, as stated, fails in both directions. With \<^verbatim>\<open>maxCalls: -1\<close> the sequence is
  exhausted at the first rejection, when the counter is \<open>1\<close>, not \<open>-1\<close>. With the default
  \<open>7\<close>, a completion that arrives after the exhaustion is a further exhaustion at
  counter \<open>8\<close>, and the failure callback is called a second time.
\<close>

theorem exhaustion_off_maxCalls_example:
  "fst (ntil (JFunction checker_fn) (JFunction myFunc_fn) (JFunction success_fn)
          (JFunction failure_fn) (JObject (empty_object\<lparr>opt_maxCalls := Some (- 1)\<rparr>)) empty_store) =
     Inr (Handler (readme_handler\<lparr>h_maxCalls := - 1\<rparr>)) \<and>
   handler_call readme_world (readme_handler\<lparr>h_maxCalls := - 1\<rparr>) [JNum 1, JNum 1] =
     \<lparr>wait = 1, calls = 1, timers = 0, invoked = 1,
      trace = [CallPerformer [JNum 1, JNum 1], CallChecker [JNum 2],
               CallFailure failure_fn [JNum 2]]\<rparr> \<and>
   h_maxCalls readme_handler = 7 \<and>
   next_cb readme_world readme_handler [JNum 2]
       \<lparr>wait = 64, calls = 7, timers = 0, invoked = 7, trace = []\<rparr> =
     \<lparr>wait = 64, calls = 8, timers = 0, invoked = 7,
      trace = [CallChecker [JNum 2], CallFailure failure_fn [JNum 2]]\<rparr>"
  by (simp add: ntil_def Let_def empty_object_def or_num_def or_str_def readme_handler_def
      checker_fn_def myFunc_fn_def handler_call_def invoke_def readme_world_def myFunc_def
      next_cb_def accepted_def readme_checker_def emit_def call_failure_def)

text \<open>
  C2, amended. A rejected result exhausts the sequence exactly when the incremented
  counter is not below the resolved \<^verbatim>\<open>maxCalls\<close>: then the counter is incremented, the
  failure callback is called with the result values if it is a function, no timeout is
  scheduled and nothing else changes; below \<^verbatim>\<open>maxCalls\<close> a timeout is scheduled and the
  failure callback is not called. When \<^verbatim>\<open>maxCalls\<close> is a whole number \<open>n\<close> that the
  counter has not reached, this is exactly when the incremented counter equals \<open>n\<close>; and
  in an invocation that follows the performer's calling convention, with \<open>n \<ge> 1\<close>, the
  counter never exceeds \<open>n\<close>, the failure callback has been called once when the counter
  is \<open>n\<close> and never before, and at counter \<open>n\<close> no timeout is pending.
\<close>

theorem exhausted_iff_counter_not_below_maxCalls:
  "(\<not> accepted w h r \<longrightarrow>
      (timers (next_cb w h r st) = timers st) = (h_maxCalls h \<le> real (calls st + 1))) \<and>
   (\<not> accepted w h r \<and> h_maxCalls h \<le> real (calls st + 1) \<longrightarrow>
      next_cb w h r st =
        (emit (CallChecker r #
               (if h_logger h then [Warn (msg_too_many h (calls st + 1))] else []) @
               call_failure (h_failure h) r) st)\<lparr>calls := calls st + 1\<rparr>) \<and>
   (\<not> accepted w h r \<and> real (calls st + 1) < h_maxCalls h \<longrightarrow>
      timers (next_cb w h r st) = timers st + 1 \<and>
      failures (trace (next_cb w h r st)) = failures (trace st)) \<and>
   (\<not> accepted w h r \<and> h_maxCalls h = real n \<and> calls st < n \<longrightarrow>
      (timers (next_cb w h r st) = timers st) = (calls st + 1 = n)) \<and>
   (h_maxCalls h = real n \<and> 1 \<le> n \<and> obeys_from_call w h args evs \<longrightarrow>
      (\<exists>st'. handler_run w h args evs = Some st' \<and> calls st' \<le> n \<and>
         failures (trace st') = (if calls st' = n \<and> is_function (h_failure h) then 1 else 0) \<and>
         (if calls st' = n then timers st' = 0 else True)))"
proof (intro conjI impI)
  assume "\<not> accepted w h r"
  then show "(timers (next_cb w h r st) = timers st) = (h_maxCalls h \<le> real (calls st + 1))"
    by (auto simp add: next_cb_timers)
next
  assume "\<not> accepted w h r \<and> h_maxCalls h \<le> real (calls st + 1)"
  then show "next_cb w h r st =
        (emit (CallChecker r #
               (if h_logger h then [Warn (msg_too_many h (calls st + 1))] else []) @
               call_failure (h_failure h) r) st)\<lparr>calls := calls st + 1\<rparr>"
    by (simp add: next_cb_def emit_def Let_def)
next
  assume a: "\<not> accepted w h r \<and> real (calls st + 1) < h_maxCalls h"
  then show "timers (next_cb w h r st) = timers st + 1"
    by (simp add: next_cb_timers)
  from a show "failures (trace (next_cb w h r st)) = failures (trace st)"
    by (simp add: next_cb_failures)
next
  assume "\<not> accepted w h r \<and> h_maxCalls h = real n \<and> calls st < n"
  then show "(timers (next_cb w h r st) = timers st) = (calls st + 1 = n)"
    by (auto simp add: next_cb_timers)
next
  assume a: "h_maxCalls h = real n \<and> 1 \<le> n \<and> obeys_from_call w h args evs"
  then have m: "h_maxCalls h = real n" and pos: "1 \<le> n"
    and one: "once (performer_of w (h_performer h) 0 args)"
    and ob: "obeys w h args evs (handler_call w h args)"
    by (simp_all add: obeys_from_call_def)
  from settled_run [OF m settled_handler_call [OF m pos one] ob]
  obtain st' where r: "handler_run w h args evs = Some st'" and s: "settled h n st'"
    by (auto simp add: handler_run_def)
  from s have "calls st' \<le> n \<and>
         failures (trace st') = (if calls st' = n \<and> is_function (h_failure h) then 1 else 0) \<and>
         (if calls st' = n then timers st' = 0 else True)"
    by (auto simp add: settled_def)
  with r show "\<exists>st'. handler_run w h args evs = Some st' \<and> calls st' \<le> n \<and>
         failures (trace st') = (if calls st' = n \<and> is_function (h_failure h) then 1 else 0) \<and>
         (if calls st' = n then timers st' = 0 else True)"
    by blast
qed

theorem exhausted_iff_counter_not_below_maxCalls_witness:
  "\<not> accepted readme_world readme_handler [JNum 2] \<and>
   h_maxCalls readme_handler = real 7 \<and>
   real (calls start + 1) < h_maxCalls readme_handler \<and>
   timers (next_cb readme_world readme_handler [JNum 2] start) = timers start + 1 \<and>
   h_maxCalls readme_handler \<le> real (calls (start\<lparr>calls := 6\<rparr>) + 1) \<and>
   calls (start\<lparr>calls := 6\<rparr>) < 7 \<and>
   next_cb readme_world readme_handler [JNum 2] (start\<lparr>calls := 6\<rparr>) =
     (emit [CallChecker [JNum 2], CallFailure failure_fn [JNum 2]] start)\<lparr>calls := 7\<rparr> \<and>
   h_maxCalls (readme_handler\<lparr>h_maxCalls := 3\<rparr>) = real 3 \<and> (1::nat) \<le> 3 \<and>
   obeys_from_call readme_world (readme_handler\<lparr>h_maxCalls := 3\<rparr>) [JNum 1, JNum 1]
     [TimerFires, TimerFires] \<and>
   handler_run readme_world (readme_handler\<lparr>h_maxCalls := 3\<rparr>) [JNum 1, JNum 1]
       [TimerFires, TimerFires] =
     Some \<lparr>wait = 4, calls = 3, timers = 0, invoked = 3,
       trace = [CallPerformer [JNum 1, JNum 1], CallChecker [JNum 2], SetTimeout 1000,
                CallPerformer [JNum 1, JNum 1], CallChecker [JNum 2], SetTimeout 2000,
                CallPerformer [JNum 1, JNum 1], CallChecker [JNum 2],
                CallFailure failure_fn [JNum 2]]\<rparr>"
  using exhausted_iff_counter_not_below_maxCalls
      [of readme_world readme_handler "[JNum 2]" start 7 "[JNum 1, JNum 1]" "[]"]
    exhausted_iff_counter_not_below_maxCalls
      [of readme_world readme_handler "[JNum 2]" "start\<lparr>calls := 6\<rparr>" 7 "[JNum 1, JNum 1]" "[]"]
    exhausted_iff_counter_not_below_maxCalls
      [of readme_world "readme_handler\<lparr>h_maxCalls := 3\<rparr>" "[JNum 2]" start 3
          "[JNum 1, JNum 1]" "[TimerFires, TimerFires]"]
  by (simp add: accepted_def readme_world_def readme_checker_def readme_handler_def start_def
      obeys_from_call_def once_def myFunc_def handler_run_def handler_call_def invoke_def
      next_cb_def emit_def call_failure_def checks_def double_times_small)

section \<open>The fluent builder\<close>

lemma apply_setter_ref: "fst (apply_setter r c s) = r"
  by (cases c) (simp_all add: chain_opts_def chain_exec_def chain_done_def chain_fail_def)

lemma chained_ref: "fst (chained r cs s) = r"
proof (induction cs arbitrary: s)
  case Nil
  show ?case by simp
next
  case (Cons c cs)
  obtain s' where "apply_setter r c s = (r, s')"
    using apply_setter_ref [of r c s] by (cases "apply_setter r c s") simp
  then show ?case using Cons.IH [of s'] by simp
qed

lemma chained_slots:
  "objs (snd (chained r cs s)) r =
     \<lparr>c_checker = c_checker (objs s r), c_opts = last_opts cs (c_opts (objs s r)),
      c_perform = last_exec cs (c_perform (objs s r)),
      c_success = last_done cs (c_success (objs s r)),
      c_failure = last_fail cs (c_failure (objs s r))\<rparr>"
proof (induction cs arbitrary: s)
  case Nil
  show ?case by (simp add: last_opts_def last_exec_def last_done_def last_fail_def)
next
  case (Cons c cs)
  show ?case
    by (cases c)
       (simp_all add: Cons.IH chain_opts_def chain_exec_def chain_done_def chain_fail_def
          last_opts_def last_exec_def last_done_def last_fail_def)
qed

lemma observe_ntil_store:
  "observe (ntil checker performer success failure opts s) =
   observe (ntil checker performer success failure opts s')"
  by (cases checker; cases performer)
     (simp_all add: observe_def ntil_def new_chain_def Let_def)

lemma fluent_as_direct:
  "observe (fluent checker cs s) =
   observe (ntil checker (last_exec cs JUndefined) (last_done cs JUndefined)
              (last_fail cs JUndefined) (last_opts cs JUndefined) s)"
proof (cases checker)
  case (JFunction c)
  let ?s0 = "snd (new_chain checker JUndefined s)"
  have start: "ntil checker JUndefined JUndefined JUndefined JUndefined s =
      (Inr (Builder (fresh s)), ?s0)"
    by (simp add: JFunction ntil_def new_chain_def Let_def)
  have seed: "objs ?s0 (fresh s) = \<lparr>c_checker = checker, c_opts = JUndefined,
      c_perform = JUndefined, c_success = JUndefined, c_failure = JUndefined\<rparr>"
    by (simp add: new_chain_def)
  obtain s1 where ch: "chained (fresh s) cs ?s0 = (fresh s, s1)"
    using chained_ref [of "fresh s" cs ?s0] by (cases "chained (fresh s) cs ?s0") simp
  have slots: "objs s1 (fresh s) = \<lparr>c_checker = checker, c_opts = last_opts cs JUndefined,
      c_perform = last_exec cs JUndefined, c_success = last_done cs JUndefined,
      c_failure = last_fail cs JUndefined\<rparr>"
    using chained_slots [of "fresh s" cs ?s0] by (simp add: ch seed)
  have "fluent checker cs s =
      ntil checker (last_exec cs JUndefined) (last_done cs JUndefined)
        (last_fail cs JUndefined) (last_opts cs JUndefined) s1"
    by (simp add: fluent_def start ch chain_func_def slots Let_def)
  then show ?thesis
    by (simp add: observe_ntil_store [of _ _ _ _ _ s1 s])
qed (simp_all add: fluent_def ntil_def observe_def Let_def)

text \<open>
  C6. For all five values, the fluent chain
  \<^verbatim>\<open>ntil(checker).exec(performer).done(success).fail(failure).opts(options).func()\<close> gives
  the caller what the direct call \<^verbatim>\<open>ntil(checker, performer, success, failure, options)\<close>
  gives: the same handler (the same captured values, hence the same behaviour), and
  likewise the same thrown value or builder contents when no handler is produced. Every
  setter returns the reference it was called on, and so does a whole chain. For any
  chain of setter calls, in any order, with setters left out or repeated, \<^verbatim>\<open>func()\<close> gives
  what the direct call gives on the arguments of the last call of each setter, with
  \<^verbatim>\<open>undefined\<close> for a setter that is not called.
\<close>

theorem fluent_chain_equals_direct_call:
  "observe (fluent checker [SetExec performer, SetDone success, SetFail failure, SetOpts options] s) =
     observe (ntil checker performer success failure options s) \<and>
   fst (chain_opts r v s) = r \<and> fst (chain_exec r v s) = r \<and>
   fst (chain_done r v s) = r \<and> fst (chain_fail r v s) = r \<and>
   fst (chained r cs s) = r \<and>
   observe (fluent checker cs s) =
     observe (ntil checker (last_exec cs JUndefined) (last_done cs JUndefined)
                (last_fail cs JUndefined) (last_opts cs JUndefined) s) \<and>
   last_exec (cs @ [SetExec v]) u = v \<and> last_done (cs @ [SetDone v]) u = v \<and>
   last_fail (cs @ [SetFail v]) u = v \<and> last_opts (cs @ [SetOpts v]) u = v"
proof -
  have "observe (fluent checker [SetExec performer, SetDone success, SetFail failure, SetOpts options] s) =
     observe (ntil checker performer success failure options s)"
    using fluent_as_direct [of checker "[SetExec performer, SetDone success, SetFail failure, SetOpts options]" s]
    by (simp add: last_opts_def last_exec_def last_done_def last_fail_def)
  moreover have "fst (chain_opts r v s) = r \<and> fst (chain_exec r v s) = r \<and>
   fst (chain_done r v s) = r \<and> fst (chain_fail r v s) = r"
    by (simp add: chain_opts_def chain_exec_def chain_done_def chain_fail_def)
  moreover have "last_exec (cs @ [SetExec v]) u = v \<and> last_done (cs @ [SetDone v]) u = v \<and>
   last_fail (cs @ [SetFail v]) u = v \<and> last_opts (cs @ [SetOpts v]) u = v"
    by (simp add: last_opts_def last_exec_def last_done_def last_fail_def)
  ultimately show ?thesis
    using chained_ref [of r cs s] fluent_as_direct [of checker cs s] by simp
qed

theorem fluent_chain_equals_direct_call_witness:
  "observe (fluent (JFunction checker_fn)
      [SetExec (JFunction myFunc_fn), SetDone (JFunction success_fn),
       SetFail (JFunction failure_fn), SetOpts JUndefined] empty_store) =
     GotHandler readme_handler \<and>
   observe (fluent (JFunction checker_fn)
      [SetOpts (JObject (empty_object\<lparr>opt_maxCalls := Some 3\<rparr>)), SetFail JNull,
       SetExec JNull, SetFail (JFunction failure_fn), SetExec (JFunction myFunc_fn)]
      empty_store) =
     GotHandler (readme_handler\<lparr>h_success := JUndefined, h_maxCalls := 3\<rparr>)"
proof -
  have direct: "observe (ntil (JFunction checker_fn) (JFunction myFunc_fn)
      (JFunction success_fn) (JFunction failure_fn) JUndefined empty_store) =
      GotHandler readme_handler"
    by (simp add: observe_def ntil_def Let_def empty_object_def or_num_def or_str_def
        readme_handler_def myFunc_fn_def checker_fn_def)
  have direct': "observe (ntil (JFunction checker_fn) (JFunction myFunc_fn)
      JUndefined (JFunction failure_fn) (JObject (empty_object\<lparr>opt_maxCalls := Some 3\<rparr>))
      empty_store) = GotHandler (readme_handler\<lparr>h_success := JUndefined, h_maxCalls := 3\<rparr>)"
    by (simp add: observe_def ntil_def Let_def empty_object_def or_num_def or_str_def
        readme_handler_def myFunc_fn_def checker_fn_def)
  let ?cs = "[SetOpts (JObject (empty_object\<lparr>opt_maxCalls := Some 3\<rparr>)), SetFail JNull,
       SetExec JNull, SetFail (JFunction failure_fn), SetExec (JFunction myFunc_fn)]"
  have lasts: "last_exec ?cs JUndefined = JFunction myFunc_fn"
    "last_done ?cs JUndefined = JUndefined"
    "last_fail ?cs JUndefined = JFunction failure_fn"
    "last_opts ?cs JUndefined = JObject (empty_object\<lparr>opt_maxCalls := Some 3\<rparr>)"
    by (simp_all add: last_exec_def last_done_def last_fail_def last_opts_def)
  from fluent_chain_equals_direct_call
      [of "JFunction checker_fn" "JFunction myFunc_fn" "JFunction success_fn"
          "JFunction failure_fn" JUndefined empty_store 0 JUndefined ?cs JUndefined,
        THEN conjunct1]
    direct
  have first: "observe (fluent (JFunction checker_fn)
      [SetExec (JFunction myFunc_fn), SetDone (JFunction success_fn),
       SetFail (JFunction failure_fn), SetOpts JUndefined] empty_store) =
     GotHandler readme_handler"
    by (simp only:)
  from fluent_chain_equals_direct_call
      [of "JFunction checker_fn" "JFunction myFunc_fn" "JFunction success_fn"
          "JFunction failure_fn" JUndefined empty_store 0 JUndefined ?cs JUndefined,
        THEN conjunct2, THEN conjunct2, THEN conjunct2, THEN conjunct2, THEN conjunct2,
        THEN conjunct2, THEN conjunct1]
    direct' lasts
  have "observe (fluent (JFunction checker_fn) ?cs empty_store) =
     GotHandler (readme_handler\<lparr>h_success := JUndefined, h_maxCalls := 3\<rparr>)"
    by (simp only:)
  with first show ?thesis
    by (intro conjI)
qed

section \<open>A throwing performer is a performer that calls \<open>next()\<close>\<close>
















section \<open>The backoff\<close>

lemma rejections_append: "rejections w h (xs @ ys) = rejections w h xs + rejections w h ys"
  by (simp add: rejections_def)

lemma scheduled_append:
  "scheduled w h k (xs @ ys) = scheduled w h k xs @ scheduled w h (k + rejections w h xs) ys"
proof (induction xs arbitrary: k)
  case Nil
  show ?case by (simp add: rejections_def)
next
  case (Cons e xs)
  show ?case
    by (cases e) (simp_all add: Cons.IH rejections_def is_rejection_def)
qed

lemma scheduled_call_success: "scheduled w h k (call_success f r) = []"
  by (cases f) (simp_all add: call_success_def)

lemma scheduled_call_failure: "scheduled w h k (call_failure f r) = []"
  by (cases f) (simp_all add: call_failure_def)

lemma rejections_call_success: "rejections w h (call_success f r) = 0"
  by (cases f) (simp_all add: call_success_def rejections_def is_rejection_def)

lemma rejections_call_failure: "rejections w h (call_failure f r) = 0"
  by (cases f) (simp_all add: call_failure_def rejections_def is_rejection_def)

lemma next_cb_rejections:
  "rejections w h (trace (next_cb w h r st)) =
     rejections w h (trace st) + (if accepted w h r then 0 else 1)"
proof -
  have "rejections w h (CallChecker r # es) =
      (if accepted w h r then 0 else 1) + rejections w h es" for es
    by (simp add: rejections_def is_rejection_def)
  moreover have "rejections w h [Info m] = 0" "rejections w h [Warn m] = 0"
    "rejections w h [SetTimeout d] = 0" "rejections w h [] = 0" for m d
    by (simp_all add: rejections_def is_rejection_def)
  ultimately show ?thesis
    by (simp add: next_cb_trace rejections_append rejections_call_success
        rejections_call_failure)
qed

lemma next_cb_scheduled:
  "scheduled w h 0 (trace (next_cb w h r st)) =
     scheduled w h 0 (trace st) @
     (if \<not> accepted w h r \<and> real (calls st + 1) < h_maxCalls h
      then [(rejections w h (trace st) + 1, multiply w (wait st) 1000)] else [])"
proof -
  have warn: "scheduled w h k ((if b then [Warn m] else []) @ es) = scheduled w h k es"
    for k b m es by simp
  have info: "scheduled w h k ((if b then [Info m] else []) @ es) = scheduled w h k es"
    for k b m es by simp
  show ?thesis
    by (simp add: next_cb_trace scheduled_append [of w h 0 "trace st"] warn info
        scheduled_call_success scheduled_call_failure del: append_assoc)
qed

lemma retried_below:
  assumes "real (c + 1) < h_maxCalls h"
  shows "retried h (c + 1) = [1..<Suc (c + 1)]" and "retried h c = [1..<Suc c]"
proof -
  have "\<forall>k \<in> set [1..<Suc (c + 1)]. real k < h_maxCalls h"
    using assms by auto
  then show "retried h (c + 1) = [1..<Suc (c + 1)]"
    unfolding retried_def by (simp only: filter_True)
  have "\<forall>k \<in> set [1..<Suc c]. real k < h_maxCalls h"
    using assms by auto
  then show "retried h c = [1..<Suc c]"
    unfolding retried_def by (simp only: filter_True)
qed

lemma retried_Suc:
  "retried h (c + 1) = retried h c @ (if real (c + 1) < h_maxCalls h then [c + 1] else [])"
  by (simp add: retried_def)

lemma geometric_next_cb:
  assumes g: "geometric w h st"
  shows "geometric w h (next_cb w h r st)"
proof (cases "accepted w h r")
  case True
  with g show ?thesis
    by (simp add: geometric_def next_cb_calls next_cb_wait next_cb_rejections next_cb_scheduled)
next
  case rej: False
  show ?thesis
  proof (cases "real (calls st + 1) < h_maxCalls h")
    case True
    from retried_below [OF True] have len: "length (retried h (calls st)) = calls st"
      and r1: "retried h (calls st + 1) = retried h (calls st) @ [calls st + 1]"
      by (simp_all add: retried_Suc True)
    from g rej True len r1 show ?thesis
      by (simp add: geometric_def next_cb_calls next_cb_wait next_cb_rejections
          next_cb_scheduled)
  next
    case False
    then have "retried h (calls st + 1) = retried h (calls st)"
      using retried_Suc [of h "calls st"] by simp
    with g rej False show ?thesis
      by (simp add: geometric_def next_cb_calls next_cb_wait next_cb_rejections
          next_cb_scheduled)
  qed
qed

lemma geometric_fold_next_cb:
  "geometric w h st \<Longrightarrow> geometric w h (fold (next_cb w h) rs st)"
  by (induction rs arbitrary: st) (simp_all add: geometric_next_cb)

lemma geometric_neutral:
  "geometric w h st \<Longrightarrow> geometric w h (st\<lparr>timers := n\<rparr>)"
  "geometric w h st \<Longrightarrow> geometric w h (st\<lparr>invoked := n\<rparr>)"
  "geometric w h st \<Longrightarrow> geometric w h (emit [CallPerformer args] st)"
  "geometric w h st \<Longrightarrow> geometric w h (emit (if b then [Warn m] else []) st)"
  by (simp_all add: geometric_def emit_def rejections_def is_rejection_def scheduled_append)

lemma geometric_invoke:
  assumes "geometric w h st"
  shows "geometric w h (invoke w h args st)"
proof -
  let ?st2 = "fold (next_cb w h) (completes (performer_of w (h_performer h) (invoked st) args))
                ((emit [CallPerformer args] st)\<lparr>invoked := invoked st + 1\<rparr>)"
  have g2: "geometric w h ?st2"
    using assms by (intro geometric_fold_next_cb geometric_neutral)
  show ?thesis
  proof (cases "raises (performer_of w (h_performer h) (invoked st) args)")
    case None
    with g2 show ?thesis by (simp add: invoke_def Let_def)
  next
    case (Some e)
    have "geometric w h (next_cb w h []
        (emit (if h_logger h then [Warn (msg_exception h e)] else []) ?st2))"
      using g2 by (intro geometric_next_cb geometric_neutral)
    with Some show ?thesis by (simp add: invoke_def Let_def)
  qed
qed

lemma geometric_run:
  "geometric w h st \<Longrightarrow> run w h args evs st = Some st' \<Longrightarrow> geometric w h st'"
proof (induction evs arbitrary: st)
  case Nil
  then show ?case by simp
next
  case (Cons ev evs)
  show ?case
  proof (cases ev)
    case TimerFires
    with Cons.prems(2) have
      rest: "run w h args evs (invoke w h args (st\<lparr>timers := timers st - 1\<rparr>)) = Some st'"
      by (simp split: if_splits)
    have "geometric w h (invoke w h args (st\<lparr>timers := timers st - 1\<rparr>))"
      using Cons.prems(1) by (intro geometric_invoke geometric_neutral)
    from Cons.IH [OF this rest] show ?thesis .
  next
    case (Completes r)
    with Cons.prems(2) have rest: "run w h args evs (next_cb w h r st) = Some st'"
      by simp
    from Cons.IH [OF geometric_next_cb [OF Cons.prems(1)] rest] show ?thesis .
  qed
qed

lemma geometric_handler_run:
  assumes "handler_run w h args evs = Some st"
  shows "geometric w h st"
proof -
  have "geometric w h \<lparr>wait = h_waitSecs h, calls = 0, timers = 0, invoked = 0, trace = []\<rparr>"
    by (simp add: geometric_def rejections_def retried_def)
  then have "geometric w h (handler_call w h args)"
    unfolding handler_call_def by (rule geometric_invoke)
  from geometric_run [OF this] assms show ?thesis
    by (simp add: handler_run_def)
qed

lemma balanced_next_cb: "balanced w h c st \<Longrightarrow> balanced w h c (next_cb w h r st)"
  by (simp add: balanced_def next_cb_invoked next_cb_timers next_cb_scheduled)

lemma balanced_fold_next_cb:
  "balanced w h c st \<Longrightarrow> balanced w h c (fold (next_cb w h) rs st)"
  by (induction rs arbitrary: st) (simp_all add: balanced_next_cb)

lemma balanced_neutral:
  "balanced w h c st \<Longrightarrow> balanced w h c (emit [CallPerformer args] st)"
  "balanced w h c st \<Longrightarrow> balanced w h c (emit (if b then [Warn m] else []) st)"
  by (simp_all add: balanced_def emit_def scheduled_append)

lemma balanced_invoke:
  assumes "balanced w h c st"
  shows "balanced w h (c + 1) (invoke w h args st)"
proof -
  let ?st1 = "(emit [CallPerformer args] st)\<lparr>invoked := invoked st + 1\<rparr>"
  let ?st2 = "fold (next_cb w h) (completes (performer_of w (h_performer h) (invoked st) args)) ?st1"
  have "balanced w h (c + 1) ?st1"
    using balanced_neutral(1) [OF assms, of args] by (simp add: balanced_def emit_def)
  then have b2: "balanced w h (c + 1) ?st2"
    by (rule balanced_fold_next_cb)
  show ?thesis
  proof (cases "raises (performer_of w (h_performer h) (invoked st) args)")
    case None
    with b2 show ?thesis by (simp add: invoke_def Let_def)
  next
    case (Some e)
    have "balanced w h (c + 1) (next_cb w h []
        (emit (if h_logger h then [Warn (msg_exception h e)] else []) ?st2))"
      using b2 by (intro balanced_next_cb balanced_neutral)
    with Some show ?thesis by (simp add: invoke_def Let_def)
  qed
qed

lemma balanced_run:
  "balanced w h 1 st \<Longrightarrow> run w h args evs st = Some st' \<Longrightarrow> balanced w h 1 st'"
proof (induction evs arbitrary: st)
  case Nil
  then show ?case by simp
next
  case (Cons ev evs)
  show ?case
  proof (cases ev)
    case TimerFires
    with Cons.prems(2) have pending: "timers st \<noteq> 0" and
      rest: "run w h args evs (invoke w h args (st\<lparr>timers := timers st - 1\<rparr>)) = Some st'"
      by (simp_all split: if_splits)
    have "balanced w h 0 (st\<lparr>timers := timers st - 1\<rparr>)"
      using Cons.prems(1) pending by (simp add: balanced_def)
    from balanced_invoke [OF this] have
      "balanced w h 1 (invoke w h args (st\<lparr>timers := timers st - 1\<rparr>))"
      by simp
    from Cons.IH [OF this rest] show ?thesis .
  next
    case (Completes r)
    with Cons.prems(2) have rest: "run w h args evs (next_cb w h r st) = Some st'"
      by simp
    from Cons.IH [OF balanced_next_cb [OF Cons.prems(1)] rest] show ?thesis .
  qed
qed

lemma balanced_handler_run:
  assumes "handler_run w h args evs = Some st"
  shows "balanced w h 1 st"
proof -
  have "balanced w h 0 \<lparr>wait = h_waitSecs h, calls = 0, timers = 0, invoked = 0, trace = []\<rparr>"
    by (simp add: balanced_def)
  from balanced_invoke [OF this] have "balanced w h 1 (handler_call w h args)"
    by (simp add: handler_call_def)
  from balanced_run [OF this] assms show ?thesis
    by (simp add: handler_run_def)
qed

lemma backoff_exact:
  "(\<forall>j<k. multiply w (h_waitSecs h * h_waitMult h ^ j) (h_waitMult h) =
      h_waitSecs h * h_waitMult h ^ Suc j) \<Longrightarrow>
   backoff w h k = h_waitSecs h * h_waitMult h ^ k"
proof (induction k)
  case 0
  show ?case by simp
next
  case (Suc k)
  from Suc.prems have "backoff w h k = h_waitSecs h * h_waitMult h ^ k"
    by (intro Suc.IH) simp
  moreover from Suc.prems have "multiply w (h_waitSecs h * h_waitMult h ^ k) (h_waitMult h) =
      h_waitSecs h * h_waitMult h ^ Suc k"
    by blast
  ultimately show ?case
    by (simp only: backoff.simps)
qed

text \<open>
  C1, as stated, fails in its second half: \<^verbatim>\<open>wait *= waitMult\<close> and \<^verbatim>\<open>wait * 1000\<close> are
  products of doubles, each rounded, so the delay is not the closed form in general.
  With \<^verbatim>\<open>{waitSecs: 0.1, waitMult: 3}\<close> the timeout scheduled at the third rejection is
  \<open>900.0000000000001\<close> milliseconds, which is \<open>900 + 2^-43\<close>, for a \<^verbatim>\<open>wait\<close> of
  \<open>0.9000000000000001\<close> seconds, while \<^verbatim>\<open>waitSecs * waitMult^2\<close> seconds is neither that as
  a real number nor that when it is computed in doubles (which gives \<open>0.9\<close> seconds and
  \<open>900\<close> milliseconds).
\<close>

theorem backoff_off_closed_form_example:
  "fst (ntil (JFunction checker_fn) (JFunction myFunc_fn) (JFunction success_fn)
          (JFunction failure_fn)
          (JObject (empty_object\<lparr>opt_waitSecs := Some tenth, opt_waitMult := Some 3\<rparr>))
          empty_store) = Inr (Handler tenth_handler) \<and>
   round_double (1 / 10) = tenth \<and>
   handler_run readme_world tenth_handler [JNum 1, JNum 1] [TimerFires, TimerFires] =
     Some \<lparr>wait = 3039929748475085 / 2 ^ 50, calls = 3, timers = 1, invoked = 3,
       trace = [CallPerformer [JNum 1, JNum 1], CallChecker [JNum 2], SetTimeout 100,
                CallPerformer [JNum 1, JNum 1], CallChecker [JNum 2],
                SetTimeout (300 + 1 / 2 ^ 44),
                CallPerformer [JNum 1, JNum 1], CallChecker [JNum 2],
                SetTimeout (900 + 1 / 2 ^ 43)]\<rparr> \<and>
   h_waitSecs tenth_handler * h_waitMult tenth_handler ^ (3 - 1) * 1000 \<noteq> 900 + 1 / 2 ^ 43 \<and>
   double_times (double_times tenth (double_times 3 3)) 1000 = 900 \<and>
   (900::real) \<noteq> 900 + 1 / 2 ^ 43 \<and>
   backoff readme_world tenth_handler 2 = 4053239664633447 / 2 ^ 52 \<and>
   h_waitSecs tenth_handler * h_waitMult tenth_handler ^ (3 - 1) \<noteq> 4053239664633447 / 2 ^ 52 \<and>
   double_times tenth (double_times 3 3) \<noteq> 4053239664633447 / 2 ^ 52"
proof -
  have "fst (ntil (JFunction checker_fn) (JFunction myFunc_fn) (JFunction success_fn)
          (JFunction failure_fn)
          (JObject (empty_object\<lparr>opt_waitSecs := Some tenth, opt_waitMult := Some 3\<rparr>))
          empty_store) = Inr (Handler tenth_handler)"
    by (simp add: ntil_def Let_def empty_object_def or_num_def or_str_def readme_handler_def
        tenth_handler_def checker_fn_def myFunc_fn_def tenth_def)
  moreover have "handler_run readme_world tenth_handler [JNum 1, JNum 1] [TimerFires, TimerFires] =
     Some \<lparr>wait = 3039929748475085 / 2 ^ 50, calls = 3, timers = 1, invoked = 3,
       trace = [CallPerformer [JNum 1, JNum 1], CallChecker [JNum 2], SetTimeout 100,
                CallPerformer [JNum 1, JNum 1], CallChecker [JNum 2],
                SetTimeout (300 + 1 / 2 ^ 44),
                CallPerformer [JNum 1, JNum 1], CallChecker [JNum 2],
                SetTimeout (900 + 1 / 2 ^ 43)]\<rparr>"
    by (simp add: handler_run_def handler_call_def invoke_def readme_world_def myFunc_def
        next_cb_def accepted_def readme_checker_def emit_def readme_handler_def
        tenth_handler_def double_times_tenth)
  moreover have "h_waitSecs tenth_handler * h_waitMult tenth_handler ^ (3 - 1) * 1000 \<noteq>
      900 + 1 / 2 ^ 43"
    by (simp add: tenth_handler_def tenth_def)
  moreover have "double_times (double_times tenth (double_times 3 3)) 1000 = 900"
    by (simp add: double_times_tenth)
  moreover have "(900::real) \<noteq> 900 + 1 / 2 ^ 43"
    by simp
  moreover have "backoff readme_world tenth_handler 2 = 4053239664633447 / 2 ^ 52"
    by (simp add: numeral_2_eq_2 readme_world_def tenth_handler_def double_times_tenth)
  moreover have "h_waitSecs tenth_handler * h_waitMult tenth_handler ^ (3 - 1) \<noteq>
      4053239664633447 / 2 ^ 52"
    by (simp add: tenth_handler_def tenth_def)
  moreover have "double_times tenth (double_times 3 3) \<noteq> 4053239664633447 / 2 ^ 52"
    by (simp add: double_times_tenth)
  ultimately show ?thesis
    using double_times_tenth(1) by (intro conjI)
qed

text \<open>
  C1, amended. In every state that a handler invocation reaches, under any performer and
  any events, the attempt counter is the number of results rejected so far (so it is \<open>k\<close>
  after the \<open>k\<close>-th rejection); the timeouts scheduled so far are exactly those of the
  rejections \<open>k\<close> below \<^verbatim>\<open>maxCalls\<close>, each scheduled when \<open>k\<close> results had been rejected
  and with the delay \<^verbatim>\<open>wait * 1000\<close> milliseconds for the value that \<^verbatim>\<open>wait\<close> has after
  \<open>k - 1\<close> executions of \<^verbatim>\<open>wait *= waitMult\<close> from \<^verbatim>\<open>waitSecs\<close>, every product being the
  host's rounded one; \<^verbatim>\<open>wait\<close> has been multiplied once per scheduled timeout; and every
  performer application but the first was made by one of these timeouts firing. The next
  rejected result, the \<open>k\<close>-th with \<open>k = calls + 1\<close>, sets the counter to \<open>k\<close> and, if a
  retry is due, schedules it with the current \<^verbatim>\<open>wait\<close> and only then multiplies
  \<^verbatim>\<open>wait\<close>. Where the products involved are exact, as with the defaults \<open>1\<close> and \<open>2\<close>,
  the value of \<^verbatim>\<open>wait\<close> is \<^verbatim>\<open>waitSecs * waitMult^(k-1)\<close> and the delay is that many seconds.
\<close>

theorem backoff_follows_rounded_products:
  assumes "handler_run w h args evs = Some st"
  shows "calls st = rejections w h (trace st) \<and>
    scheduled w h 0 (trace st) =
      map (\<lambda>k. (k, multiply w (backoff w h (k - 1)) 1000)) (retried h (calls st)) \<and>
    wait st = backoff w h (length (retried h (calls st))) \<and>
    invoked st + timers st = 1 + length (scheduled w h 0 (trace st)) \<and>
    (\<forall>r. \<not> accepted w h r \<longrightarrow>
       calls (next_cb w h r st) = calls st + 1 \<and>
       (real (calls st + 1) < h_maxCalls h \<longrightarrow>
          last (trace (next_cb w h r st)) =
            SetTimeout (multiply w (backoff w h (calls st + 1 - 1)) 1000) \<and>
          wait (next_cb w h r st) = backoff w h (calls st + 1))) \<and>
    ((\<forall>j<k. multiply w (h_waitSecs h * h_waitMult h ^ j) (h_waitMult h) =
         h_waitSecs h * h_waitMult h ^ Suc j) \<longrightarrow>
       backoff w h k = h_waitSecs h * h_waitMult h ^ k \<and>
       (multiply w (h_waitSecs h * h_waitMult h ^ k) 1000 = h_waitSecs h * h_waitMult h ^ k * 1000 \<longrightarrow>
          multiply w (backoff w h k) 1000 = h_waitSecs h * h_waitMult h ^ k * 1000))"
proof -
  have g: "geometric w h st"
    using assms by (rule geometric_handler_run)
  have bal: "invoked st + timers st = 1 + length (scheduled w h 0 (trace st))"
    using balanced_handler_run [OF assms] by (simp add: balanced_def)
  have nxt: "calls (next_cb w h r st) = calls st + 1 \<and>
       (real (calls st + 1) < h_maxCalls h \<longrightarrow>
          last (trace (next_cb w h r st)) =
            SetTimeout (multiply w (backoff w h (calls st + 1 - 1)) 1000) \<and>
          wait (next_cb w h r st) = backoff w h (calls st + 1))"
    if rej: "\<not> accepted w h r" for r
  proof (intro conjI impI)
    show "calls (next_cb w h r st) = calls st + 1"
      using rej by (simp add: next_cb_calls)
  next
    assume below: "real (calls st + 1) < h_maxCalls h"
    have "length (retried h (calls st)) = calls st"
      by (simp only: retried_below(2) [OF below] length_upt diff_Suc_1)
    moreover have "wait st = backoff w h (length (retried h (calls st)))"
      using g unfolding geometric_def by blast
    ultimately have w: "wait st = backoff w h (calls st)"
      by (simp only:)
    show "last (trace (next_cb w h r st)) =
        SetTimeout (multiply w (backoff w h (calls st + 1 - 1)) 1000)"
      using rej below w by (simp add: next_cb_trace)
    show "wait (next_cb w h r st) = backoff w h (calls st + 1)"
      using rej below w by (simp add: next_cb_wait)
  qed
  have exact: "backoff w h k = h_waitSecs h * h_waitMult h ^ k \<and>
       (multiply w (h_waitSecs h * h_waitMult h ^ k) 1000 = h_waitSecs h * h_waitMult h ^ k * 1000 \<longrightarrow>
          multiply w (backoff w h k) 1000 = h_waitSecs h * h_waitMult h ^ k * 1000)"
    if "\<forall>j<k. multiply w (h_waitSecs h * h_waitMult h ^ j) (h_waitMult h) =
         h_waitSecs h * h_waitMult h ^ Suc j"
    using backoff_exact [OF that] by simp
  from g have "calls st = rejections w h (trace st) \<and>
    scheduled w h 0 (trace st) =
      map (\<lambda>k. (k, multiply w (backoff w h (k - 1)) 1000)) (retried h (calls st)) \<and>
    wait st = backoff w h (length (retried h (calls st)))"
    by (simp add: geometric_def)
  with bal nxt exact show ?thesis
    by blast
qed

theorem backoff_follows_rounded_products_witness:
  "handler_run readme_world readme_handler [JNum 1, JNum 1] [TimerFires, TimerFires] =
     Some \<lparr>wait = 8, calls = 3, timers = 1, invoked = 3,
       trace = [CallPerformer [JNum 1, JNum 1], CallChecker [JNum 2], SetTimeout 1000,
                CallPerformer [JNum 1, JNum 1], CallChecker [JNum 2], SetTimeout 2000,
                CallPerformer [JNum 1, JNum 1], CallChecker [JNum 2], SetTimeout 4000]\<rparr> \<and>
   rejections readme_world readme_handler
     [CallPerformer [JNum 1, JNum 1], CallChecker [JNum 2], SetTimeout 1000,
      CallPerformer [JNum 1, JNum 1], CallChecker [JNum 2], SetTimeout 2000,
      CallPerformer [JNum 1, JNum 1], CallChecker [JNum 2], SetTimeout 4000] = 3 \<and>
   scheduled readme_world readme_handler 0
     [CallPerformer [JNum 1, JNum 1], CallChecker [JNum 2], SetTimeout 1000,
      CallPerformer [JNum 1, JNum 1], CallChecker [JNum 2], SetTimeout 2000,
      CallPerformer [JNum 1, JNum 1], CallChecker [JNum 2], SetTimeout 4000] =
     [(1, 1 * 2 ^ 0 * 1000), (2, 1 * 2 ^ 1 * 1000), (3, 1 * 2 ^ 2 * 1000)] \<and>
   \<not> accepted readme_world readme_handler [JNum 2] \<and>
   real (3 + 1) < h_maxCalls readme_handler \<and>
   last (trace (next_cb readme_world readme_handler [JNum 2]
       \<lparr>wait = 8, calls = 3, timers = 1, invoked = 3,
        trace = [CallPerformer [JNum 1, JNum 1], CallChecker [JNum 2], SetTimeout 1000,
                 CallPerformer [JNum 1, JNum 1], CallChecker [JNum 2], SetTimeout 2000,
                 CallPerformer [JNum 1, JNum 1], CallChecker [JNum 2], SetTimeout 4000]\<rparr>)) =
     SetTimeout (1 * 2 ^ 3 * 1000) \<and>
   multiply readme_world 1 2 = 2 \<and> multiply readme_world 2 2 = 4 \<and> multiply readme_world 4 2 = 8 \<and>
   multiply readme_world 8 1000 = 8000 \<and>
   backoff readme_world readme_handler 3 = 1 * 2 ^ 3 \<and>
   multiply readme_world (backoff readme_world readme_handler 3) 1000 = 1 * 2 ^ 3 * 1000"
proof -
  let ?tr = "[CallPerformer [JNum 1, JNum 1], CallChecker [JNum 2], SetTimeout 1000,
      CallPerformer [JNum 1, JNum 1], CallChecker [JNum 2], SetTimeout 2000,
      CallPerformer [JNum 1, JNum 1], CallChecker [JNum 2], SetTimeout 4000]"
  let ?X = "\<lparr>wait = 8, calls = 3, timers = 1, invoked = 3, trace = ?tr\<rparr>"
  have ran: "handler_run readme_world readme_handler [JNum 1, JNum 1] [TimerFires, TimerFires] =
      Some ?X"
    by (simp add: handler_run_def handler_call_def invoke_def readme_world_def myFunc_def
        next_cb_def accepted_def readme_checker_def emit_def readme_handler_def
        double_times_small)
  note b = backoff_follows_rounded_products [OF ran, of 3]
  have rej: "\<not> accepted readme_world readme_handler [JNum 2]"
    by (simp add: accepted_def readme_world_def readme_checker_def)
  have below: "real (3 + 1) < h_maxCalls readme_handler"
    by (simp add: readme_handler_def)
  then have below': "real (calls ?X + 1) < h_maxCalls readme_handler"
    by simp
  have ret: "retried readme_handler 3 = [1, 2, 3]"
    by (simp add: retried_def readme_handler_def upt_rec)
  have vals: "h_waitSecs readme_handler = 1" "h_waitMult readme_handler = 2"
    by (simp_all add: readme_handler_def)
  have prods: "multiply readme_world 1 2 = 2" "multiply readme_world 2 2 = 4"
    "multiply readme_world 4 2 = 8" "multiply readme_world 8 1000 = 8000"
    "multiply readme_world 1 1000 = 1000" "multiply readme_world 2 1000 = 2000"
    "multiply readme_world 4 1000 = 4000"
    by (simp_all add: readme_world_def double_times_small)
  have exact: "\<forall>j<3. multiply readme_world (h_waitSecs readme_handler * h_waitMult readme_handler ^ j)
        (h_waitMult readme_handler) =
      h_waitSecs readme_handler * h_waitMult readme_handler ^ Suc j"
    by (auto simp add: vals prods less_Suc_eq numeral_3_eq_3)
  have exact': "multiply readme_world (h_waitSecs readme_handler * h_waitMult readme_handler ^ 3) 1000 =
      h_waitSecs readme_handler * h_waitMult readme_handler ^ 3 * 1000"
    by (simp add: vals prods)
  note e = b [THEN conjunct2, THEN conjunct2, THEN conjunct2, THEN conjunct2, THEN conjunct2,
      THEN mp, OF exact]
  have cf: "backoff readme_world readme_handler 3 = 1 * 2 ^ 3"
    using e [THEN conjunct1] by (simp add: vals)
  have cf': "multiply readme_world (backoff readme_world readme_handler 3) 1000 = 1 * 2 ^ 3 * 1000"
    using e [THEN conjunct2, THEN mp, OF exact'] by (simp add: vals)
  have bk: "backoff readme_world readme_handler 0 = 1" "backoff readme_world readme_handler 1 = 2"
    "backoff readme_world readme_handler 2 = 4"
    by (simp_all add: vals prods numeral_2_eq_2)
  have "rejections readme_world readme_handler (trace ?X) = calls ?X"
    using b [THEN conjunct1] by (rule sym)
  then have counted: "rejections readme_world readme_handler ?tr = 3"
    by simp
  have "scheduled readme_world readme_handler 0 (trace ?X) =
      map (\<lambda>k. (k, multiply readme_world (backoff readme_world readme_handler (k - 1)) 1000))
        (retried readme_handler (calls ?X))"
    using b [THEN conjunct2, THEN conjunct1] .
  then have delays: "scheduled readme_world readme_handler 0 ?tr =
      [(1, 1 * 2 ^ 0 * 1000), (2, 1 * 2 ^ 1 * 1000), (3, 1 * 2 ^ 2 * 1000)]"
    using rej by (simp add: ret bk prods)
  have "last (trace (next_cb readme_world readme_handler [JNum 2] ?X)) =
      SetTimeout (multiply readme_world (backoff readme_world readme_handler (calls ?X + 1 - 1)) 1000)"
    using b [THEN conjunct2, THEN conjunct2, THEN conjunct2, THEN conjunct2, THEN conjunct1,
        rule_format, OF rej, THEN conjunct2, rule_format, OF below', THEN conjunct1] .
  then have nxt: "last (trace (next_cb readme_world readme_handler [JNum 2] ?X)) =
      SetTimeout (1 * 2 ^ 3 * 1000)"
    using cf' by simp
  from ran counted delays rej below nxt prods(1-4) cf cf' show ?thesis
    by (intro conjI)
qed

end
